theory Spec2Isabelle
  imports Main "HOL-Library.Char_ord" "HOL-Library.List_Lexorder" "HOL-Library.AList"
begin

section \<open>The query engine (deb/query.go)\<close>

subsection \<open>Packages, dependencies, relations\<close>

text \<open>
  \<^verbatim>\<open>FieldQuery.Relation\<close> is a Go \<^verbatim>\<open>int\<close> that is compared with the constants
  \<^verbatim>\<open>VersionDontCare\<close> ... \<^verbatim>\<open>VersionRegexp\<close>. The constants are declared outside
  query.go and their numeric values are never used there, so a relation is one of the
  eight named constants or any other integer.

  Modelled from the spec: the eight relation constants (``don't-care, equal, greater,
  greater-or-equal, less, less-or-equal, pattern-match, regexp''); query.go names all
  eight in the \<^verbatim>\<open>switch\<close> of \<^verbatim>\<open>FieldQuery.Matches\<close>.
\<close>

datatype relation =
    VersionDontCare
  | VersionEqual
  | VersionGreater
  | VersionGreaterOrEqual
  | VersionLess
  | VersionLessOrEqual
  | VersionPatternMatch
  | VersionRegexp
  | OtherRelation int

text \<open>
  Modelled from the spec: the \<^verbatim>\<open>Dependency\<close> struct (target package name, relation,
  version operand); query.go fills exactly these three fields in
  \<^verbatim>\<open>Dependency{Pkg: ..., Relation: ..., Version: ...}\<close>.
\<close>

record Dependency =
  Pkg :: string
  Relation :: relation
  Version :: string

text \<open>
  Modelled from the spec: the \<^verbatim>\<open>Package\<close> struct (name, version, architecture and
  the remaining control fields); query.go reads \<^verbatim>\<open>pkg.Name\<close>,
  \<^verbatim>\<open>pkg.Version\<close> and \<^verbatim>\<open>pkg.Architecture\<close>.
\<close>

record Package =
  Name :: string
  Version :: string
  Architecture :: string
  Fields :: "(string \<times> string) list"

text \<open>A Go \<^verbatim>\<open>panic\<close> with its message.\<close>

datatype panic = Panic string

text \<open>
  The methods of \<^verbatim>\<open>Package\<close> that query.go calls, and \<^verbatim>\<open>filepath.Match\<close> of
  the Go library, are not part of the two source files. They are parameters of the
  model. \<^verbatim>\<open>MatchesDependency\<close> may panic (the spec lists the regexp relation of a
  dependency as unsupported), so it returns an outcome; \<^verbatim>\<open>filepath.Match\<close>
  returns \<^verbatim>\<open>(matched, err)\<close>.
\<close>

record externals =
  MatchesDependency :: "Package \<Rightarrow> Dependency \<Rightarrow> panic + bool"
  MatchesArchitecture :: "Package \<Rightarrow> string \<Rightarrow> bool"
  GetField :: "Package \<Rightarrow> string \<Rightarrow> string"
  filepath_Match :: "string \<Rightarrow> string \<Rightarrow> bool \<times> string option"

subsection \<open>The query tree\<close>

text \<open>
  The six implementations of the \<^verbatim>\<open>PackageQuery\<close> interface, with the fields of
  each struct in the order of their declaration: \<^verbatim>\<open>FieldQuery{Field, Relation, Value}\<close>,
  \<^verbatim>\<open>PkgQuery{Pkg, Version, Arch}\<close>, \<^verbatim>\<open>DependencyQuery{Dep}\<close>.
\<close>

datatype PackageQuery =
    OrQuery PackageQuery PackageQuery
  | AndQuery PackageQuery PackageQuery
  | NotQuery PackageQuery
  | FieldQuery string relation string
  | PkgQuery string string string
  | DependencyQuery Dependency

text \<open>
  \<^verbatim>\<open>FieldQuery.Matches\<close>. Strings are compared as Go compares them: bytewise,
  lexicographically (the order of \<^typ>\<open>char list\<close> from \<open>List_Lexorder\<close> over
  \<open>Char_ord\<close>).
\<close>

definition FieldQuery_Matches ::
  "externals \<Rightarrow> string \<Rightarrow> relation \<Rightarrow> string \<Rightarrow> Package \<Rightarrow> panic + bool" where
  "FieldQuery_Matches x fld rel val pkg =
     (if fld = ''$Version'' then
        MatchesDependency x pkg \<lparr>Pkg = Name pkg, Relation = rel, Dependency.Version = val\<rparr>
      else if fld = ''$Architecture'' \<and> rel = VersionEqual then
        Inr (MatchesArchitecture x pkg val)
      else
        (let field = GetField x pkg fld in
         case rel of
           VersionDontCare \<Rightarrow> Inr (field \<noteq> '''')
         | VersionEqual \<Rightarrow> Inr (field = val)
         | VersionGreater \<Rightarrow> Inr (field > val)
         | VersionGreaterOrEqual \<Rightarrow> Inr (field \<ge> val)
         | VersionLess \<Rightarrow> Inr (field < val)
         | VersionLessOrEqual \<Rightarrow> Inr (field \<le> val)
         | VersionPatternMatch \<Rightarrow>
             (case filepath_Match x val field of (matched, err) \<Rightarrow> Inr (err = None \<and> matched))
         | VersionRegexp \<Rightarrow> Inl (Panic ''regexp matching not implemented yet'')
         | OtherRelation n \<Rightarrow> Inl (Panic ''unknown relation'')))"

text \<open>
  \<^verbatim>\<open>Matches\<close> of every node. Go's \<^verbatim>\<open>||\<close> and \<^verbatim>\<open>&&\<close> evaluate the right operand
  only when the left one does not decide; a panic of an operand that is evaluated is the
  outcome of the whole expression.
\<close>

fun Matches :: "externals \<Rightarrow> PackageQuery \<Rightarrow> Package \<Rightarrow> panic + bool" where
  "Matches x (OrQuery l r) pkg =
     (case Matches x l pkg of
        Inl e \<Rightarrow> Inl e
      | Inr b \<Rightarrow> if b then Inr True else Matches x r pkg)"
| "Matches x (AndQuery l r) pkg =
     (case Matches x l pkg of
        Inl e \<Rightarrow> Inl e
      | Inr b \<Rightarrow> if b then Matches x r pkg else Inr False)"
| "Matches x (NotQuery q) pkg =
     (case Matches x q pkg of
        Inl e \<Rightarrow> Inl e
      | Inr b \<Rightarrow> Inr (\<not> b))"
| "Matches x (FieldQuery fld rel val) pkg = FieldQuery_Matches x fld rel val pkg"
| "Matches x (PkgQuery name version arch) pkg =
     Inr (Name pkg = name \<and> Package.Version pkg = version \<and> Architecture pkg = arch)"
| "Matches x (DependencyQuery dep) pkg = MatchesDependency x pkg dep"

fun Fast :: "PackageQuery \<Rightarrow> bool" where
  "Fast (OrQuery l r) = (Fast l \<and> Fast r)"
| "Fast (AndQuery l r) = (Fast l \<or> Fast r)"
| "Fast (NotQuery q) = False"
| "Fast (FieldQuery fld rel val) = False"
| "Fast (PkgQuery name version arch) = True"
| "Fast (DependencyQuery dep) = True"

text \<open>
  The value of the Go expressions \<^verbatim>\<open>a || b\<close>, \<^verbatim>\<open>a && b\<close> and \<^verbatim>\<open>!a\<close> from the
  outcomes of evaluating \<^verbatim>\<open>a\<close> and \<^verbatim>\<open>b\<close> (the outcome of \<^verbatim>\<open>b\<close> is looked at
  only where Go evaluates \<^verbatim>\<open>b\<close>).
\<close>

definition go_or :: "panic + bool \<Rightarrow> panic + bool \<Rightarrow> panic + bool" where
  "go_or a b = (case a of Inl e \<Rightarrow> Inl e | Inr True \<Rightarrow> Inr True | Inr False \<Rightarrow> b)"

definition go_and :: "panic + bool \<Rightarrow> panic + bool \<Rightarrow> panic + bool" where
  "go_and a b = (case a of Inl e \<Rightarrow> Inl e | Inr True \<Rightarrow> b | Inr False \<Rightarrow> Inr False)"

definition go_not :: "panic + bool \<Rightarrow> panic + bool" where
  "go_not a = (case a of Inl e \<Rightarrow> Inl e | Inr v \<Rightarrow> Inr (\<not> v))"

subsection \<open>Package lists on the heap\<close>

text \<open>
  A \<^verbatim>\<open>*PackageList\<close> is a pointer to a mutable object with the field
  \<^verbatim>\<open>packages\<close>, a Go map from key to package (query.go, \<^verbatim>\<open>PkgQuery.Query\<close>).
  The map is an association list: its entries in the order in which a \<^verbatim>\<open>range\<close>
  over the map visits them (Go leaves that order open, every order of the entries is a
  possible run). The heap is the list of all allocated package lists, a pointer is an
  index into it, and an index outside the heap stands for \<^verbatim>\<open>nil\<close>.
\<close>

type_synonym PackageList = "(string \<times> Package) list"

type_synonym heap = "PackageList list"

text \<open>
  Modelled from the spec: the key of a package in a \<^verbatim>\<open>PackageList\<close> (``mapping keyed
  by composite key architecture name version''); the concrete format is the one query.go
  builds for its lookup, \<^verbatim>\<open>"P"+q.Arch+" "+q.Pkg+" "+q.Version\<close>.
\<close>

definition Key :: "Package \<Rightarrow> string" where
  "Key p = ''P'' @ Architecture p @ '' '' @ Name p @ '' '' @ Package.Version p"

text \<open>Dereferencing a list pointer; \<^verbatim>\<open>nil\<close> panics as the Go runtime does.\<close>

definition deref :: "heap \<Rightarrow> nat \<Rightarrow> panic + PackageList" where
  "deref h l =
     (if l < length h then Inr (h ! l)
      else Inl (Panic ''invalid memory address or nil pointer dereference''))"

text \<open>
  Modelled from the spec: \<^verbatim>\<open>NewPackageList\<close>, \<^verbatim>\<open>PackageList.Add\<close>,
  \<^verbatim>\<open>PackageList.Append\<close>, \<^verbatim>\<open>PackageList.Scan\<close> and \<^verbatim>\<open>PackageList.Search\<close>,
  which query.go calls and which are not part of the two source files.
  \<^item> \<^verbatim>\<open>NewPackageList\<close> allocates an empty list.
  \<^item> \<^verbatim>\<open>Add\<close> stores a package under its key; keys are unique, so a key that is
    present keeps its entry (query.go ignores what \<^verbatim>\<open>Add\<close> returns).
  \<^item> \<^verbatim>\<open>Append\<close> is the ``duplicate-safe append'', the union of two lists: every
    entry of the other list whose key is new is stored (query.go ignores what
    \<^verbatim>\<open>Append\<close> returns).
  \<^item> \<^verbatim>\<open>Scan\<close> is the ``full linear scan'': it allocates the result and adds every
    package of the list on which the query's \<^verbatim>\<open>Matches\<close> is true.
  \<^item> \<^verbatim>\<open>Search\<close> is the ``dependency-satisfying search'': it returns the packages of
    the list that satisfy the dependency (\<^verbatim>\<open>MatchesDependency\<close>); query.go always
    asks for all matches.
\<close>

definition NewPackageList :: "heap \<Rightarrow> nat \<times> heap" where
  "NewPackageList h = (length h, h @ [[]])"

definition add_entry :: "PackageList \<Rightarrow> string \<times> Package \<Rightarrow> PackageList" where
  "add_entry ps e = (if fst e \<in> fst ` set ps then ps else ps @ [e])"

definition Add :: "nat \<Rightarrow> Package \<Rightarrow> heap \<Rightarrow> heap" where
  "Add r p h = (if r < length h then h[r := add_entry (h ! r) (Key p, p)] else h)"

definition Append :: "nat \<Rightarrow> nat \<Rightarrow> heap \<Rightarrow> heap" where
  "Append r other h =
     (if r < length h \<and> other < length h then h[r := foldl add_entry (h ! r) (h ! other)]
      else h)"

fun scan_loop ::
  "externals \<Rightarrow> PackageQuery \<Rightarrow> PackageList \<Rightarrow> nat \<Rightarrow> heap \<Rightarrow> panic option \<times> heap" where
  "scan_loop x q [] r h = (None, h)"
| "scan_loop x q (e # es) r h =
     (case Matches x q (snd e) of
        Inl err \<Rightarrow> (Some err, h)
      | Inr b \<Rightarrow> scan_loop x q es r (if b then Add r (snd e) h else h))"

definition Scan :: "externals \<Rightarrow> nat \<Rightarrow> PackageQuery \<Rightarrow> heap \<Rightarrow> (panic + nat) \<times> heap" where
  "Scan x l q h =
     (case NewPackageList h of (result, h1) \<Rightarrow>
        (case deref h1 l of
           Inl err \<Rightarrow> (Inl err, h1)
         | Inr ps \<Rightarrow>
             (case scan_loop x q ps result h1 of
                (Some err, h2) \<Rightarrow> (Inl err, h2)
              | (None, h2) \<Rightarrow> (Inr result, h2))))"

fun search_loop :: "externals \<Rightarrow> Dependency \<Rightarrow> PackageList \<Rightarrow> panic + Package list" where
  "search_loop x dep [] = Inr []"
| "search_loop x dep (e # es) =
     (case MatchesDependency x (snd e) dep of
        Inl err \<Rightarrow> Inl err
      | Inr b \<Rightarrow>
          (case search_loop x dep es of
             Inl err \<Rightarrow> Inl err
           | Inr found \<Rightarrow> Inr (if b then snd e # found else found)))"

definition Search :: "externals \<Rightarrow> nat \<Rightarrow> Dependency \<Rightarrow> heap \<Rightarrow> panic + Package list" where
  "Search x l dep h =
     (case deref h l of Inl err \<Rightarrow> Inl err | Inr ps \<Rightarrow> search_loop x dep ps)"

subsection \<open>Query\<close>

text \<open>
  \<^verbatim>\<open>Query\<close> of every node: the list pointer and the heap go in, the outcome (a panic
  or the pointer to the result) and the heap come out.
\<close>

fun Query :: "externals \<Rightarrow> PackageQuery \<Rightarrow> nat \<Rightarrow> heap \<Rightarrow> (panic + nat) \<times> heap" where
  "Query x (OrQuery l r) list h =
     (if Fast (OrQuery l r) then
        (case Query x l list h of
           (Inl err, h1) \<Rightarrow> (Inl err, h1)
         | (Inr result, h1) \<Rightarrow>
             (case Query x r list h1 of
                (Inl err, h2) \<Rightarrow> (Inl err, h2)
              | (Inr other, h2) \<Rightarrow> (Inr result, Append result other h2)))
      else Scan x list (OrQuery l r) h)"
| "Query x (AndQuery l r) list h =
     (if \<not> Fast (AndQuery l r) then Scan x list (AndQuery l r) h
      else if Fast l then
        (case Query x l list h of
           (Inl err, h1) \<Rightarrow> (Inl err, h1)
         | (Inr result, h1) \<Rightarrow> Scan x result r h1)
      else
        (case Query x r list h of
           (Inl err, h1) \<Rightarrow> (Inl err, h1)
         | (Inr result, h1) \<Rightarrow> Scan x result l h1))"
| "Query x (NotQuery q) list h = Scan x list (NotQuery q) h"
| "Query x (FieldQuery fld rel val) list h = Scan x list (FieldQuery fld rel val) h"
| "Query x (DependencyQuery dep) list h =
     (case NewPackageList h of (result, h1) \<Rightarrow>
        (case Search x list dep h1 of
           Inl err \<Rightarrow> (Inl err, h1)
         | Inr found \<Rightarrow> (Inr result, fold (Add result) found h1)))"
| "Query x (PkgQuery name version arch) list h =
     (case NewPackageList h of (result, h1) \<Rightarrow>
        (case deref h1 list of
           Inl err \<Rightarrow> (Inl err, h1)
         | Inr ps \<Rightarrow>
             (case map_of ps (''P'' @ arch @ '' '' @ name @ '' '' @ version) of
                None \<Rightarrow> (Inr result, h1)
              | Some pkg \<Rightarrow> (Inr result, Add result pkg h1))))"

subsection \<open>Well-formed lists, unambiguous keys, queries that do not panic\<close>

text \<open>
  Modelled from the spec: the invariant of a \<^verbatim>\<open>PackageList\<close> (``keys are unique per
  (architecture, name, version) triple''): no key occurs twice and every package is
  stored under its own key.
\<close>

definition wf_list :: "PackageList \<Rightarrow> bool" where
  "wf_list ps = (distinct (map fst ps) \<and> (\<forall>e\<in>set ps. fst e = Key (snd e)))"

text \<open>
  The composite key joins architecture, name and version with single spaces. It names
  one triple only when architecture and name are free of spaces, as Debian architectures
  and package names are; a version may contain anything.
\<close>

definition nospace :: "string \<Rightarrow> bool" where
  "nospace s = (CHR '' '' \<notin> set s)"

definition plain_package :: "Package \<Rightarrow> bool" where
  "plain_package p = (nospace (Architecture p) \<and> nospace (Name p))"

fun plain_query :: "PackageQuery \<Rightarrow> bool" where
  "plain_query (OrQuery l r) = (plain_query l \<and> plain_query r)"
| "plain_query (AndQuery l r) = (plain_query l \<and> plain_query r)"
| "plain_query (NotQuery q) = plain_query q"
| "plain_query (FieldQuery fld rel val) = True"
| "plain_query (PkgQuery name version arch) = (nospace arch \<and> nospace name)"
| "plain_query (DependencyQuery dep) = True"

text \<open>
  No evaluation of \<^verbatim>\<open>Matches\<close> on the package panics, whichever operands Go
  evaluates: every leaf of the query returns a boolean on the package.
\<close>

fun never_panics :: "externals \<Rightarrow> PackageQuery \<Rightarrow> Package \<Rightarrow> bool" where
  "never_panics x (OrQuery l r) p = (never_panics x l p \<and> never_panics x r p)"
| "never_panics x (AndQuery l r) p = (never_panics x l p \<and> never_panics x r p)"
| "never_panics x (NotQuery q) p = never_panics x q p"
| "never_panics x (FieldQuery fld rel val) p =
     (case Matches x (FieldQuery fld rel val) p of Inl e \<Rightarrow> False | Inr b \<Rightarrow> True)"
| "never_panics x (PkgQuery name version arch) p = True"
| "never_panics x (DependencyQuery dep) p =
     (case Matches x (DependencyQuery dep) p of Inl e \<Rightarrow> False | Inr b \<Rightarrow> True)"

text \<open>
  The list \<open>R\<close> answers the query \<open>q\<close> on the list \<open>L\<close>: it holds entries of \<open>L\<close>
  only, none on which \<^verbatim>\<open>Matches\<close> returns false, and every one on which
  \<^verbatim>\<open>Matches\<close> returns true.
\<close>

definition selects :: "externals \<Rightarrow> PackageQuery \<Rightarrow> PackageList \<Rightarrow> PackageList \<Rightarrow> bool" where
  "selects x q L R =
     (set R \<subseteq> set L
      \<and> (\<forall>e\<in>set R. \<forall>b. Matches x q (snd e) = Inr b \<longrightarrow> b)
      \<and> (\<forall>e\<in>set L. Matches x q (snd e) = Inr True \<longrightarrow> e \<in> set R))"

text \<open>
  The two relations that \<^verbatim>\<open>FieldQuery.Matches\<close> cannot evaluate, with the panic the
  spec gives each: the regexp relation is not implemented, a relation outside the known
  set is an internal error.
\<close>

definition unsupported :: "relation \<Rightarrow> panic option" where
  "unsupported rel =
     (case rel of
        VersionRegexp \<Rightarrow> Some (Panic ''regexp matching not implemented yet'')
      | OtherRelation n \<Rightarrow> Some (Panic ''unknown relation'')
      | _ \<Rightarrow> None)"

section \<open>The publish pipeline (debian/publish.go)\<close>

subsection \<open>Data\<close>

text \<open>
  Modelled from the spec: \<^verbatim>\<open>utils.ChecksumInfo\<close> (``size plus MD5/SHA1/SHA256 digests of
  one generated artifact''); publish.go reads \<^verbatim>\<open>info.Size\<close>, \<^verbatim>\<open>info.MD5\<close>,
  \<^verbatim>\<open>info.SHA1\<close> and \<^verbatim>\<open>info.SHA256\<close>.
\<close>

record ChecksumInfo =
  Size :: int
  MD5 :: string
  SHA1 :: string
  SHA256 :: string

text \<open>
  Modelled from the spec: \<^verbatim>\<open>Snapshot\<close> (``UUID, ordered reference list naming exact
  package versions''); publish.go reads \<^verbatim>\<open>snapshot.UUID\<close> and calls
  \<^verbatim>\<open>snapshot.RefList()\<close>.
\<close>

record Snapshot =
  UUID :: string
  RefList :: "string list"

text \<open>
  \<^verbatim>\<open>PublishedRepo\<close>. A Go slice is \<^verbatim>\<open>nil\<close> or a sequence; \<^verbatim>\<open>len\<close> of \<^verbatim>\<open>nil\<close> is 0
  and a \<^verbatim>\<open>range\<close> over \<^verbatim>\<open>nil\<close> visits nothing.
\<close>

record PublishedRepo =
  Prefix :: string
  Distribution :: string
  Component :: string
  Architectures :: "string list option"
  SnapshotUUID :: string
  snapshot :: Snapshot

definition slice :: "string list option \<Rightarrow> string list" where
  "slice s = (case s of None \<Rightarrow> [] | Some xs \<Rightarrow> xs)"

definition NewPublishedRepo ::
  "string \<Rightarrow> string \<Rightarrow> string \<Rightarrow> string list option \<Rightarrow> Snapshot \<Rightarrow> PublishedRepo" where
  "NewPublishedRepo prefix distribution component architectures snap =
     \<lparr>Prefix = prefix, Distribution = distribution, Component = component,
      Architectures = architectures, SnapshotUUID = UUID snap, snapshot = snap\<rparr>"

text \<open>
  Modelled from the spec: \<^verbatim>\<open>Stanza\<close>, ``an ordered field to value mapping'' that
  publish.go creates with \<^verbatim>\<open>make(Stanza)\<close> and fills by assignment to
  \<^verbatim>\<open>release[field]\<close>. The fields are listed in the order of their first assignment;
  reading a field that is absent gives the empty string, as a Go map does.
\<close>

type_synonym Stanza = "(string \<times> string) list"

definition field :: "Stanza \<Rightarrow> string \<Rightarrow> string" where
  "field st name = (case map_of st name of None \<Rightarrow> '''' | Some v \<Rightarrow> v)"

text \<open>
  An \<^verbatim>\<open>error\<close> that \<^verbatim>\<open>Publish\<close> returns: the error of a collaborator handed on as it
  is (\<^verbatim>\<open>return err\<close>), or a new one made by \<^verbatim>\<open>fmt.Errorf\<close> from the format string
  of the source and the messages of its arguments. A collaborator's error is its
  message.
\<close>

datatype error = Raw string | Errorf string "string list"

text \<open>
  What \<^verbatim>\<open>Publish\<close> calls and the two source files do not contain: the methods of the
  repository (\<^verbatim>\<open>MkDir\<close>, \<^verbatim>\<open>CreateFile\<close>, \<^verbatim>\<open>ChecksumsForFile\<close>), the loader
  \<^verbatim>\<open>NewPackageListFromRefList\<close>, the methods of a package
  (\<^verbatim>\<open>MatchesArchitecture\<close>, \<^verbatim>\<open>LinkFromPool\<close>, \<^verbatim>\<open>Stanza\<close>), \<^verbatim>\<open>Stanza.WriteTo\<close>,
  the buffered writer and the file (\<^verbatim>\<open>WriteByte\<close>, \<^verbatim>\<open>Flush\<close>, \<^verbatim>\<open>Close\<close>,
  \<^verbatim>\<open>Name\<close>), \<^verbatim>\<open>utils.CompressFile\<close>, the two methods of the signer, the clock
  (\<^verbatim>\<open>time.Now().UTC().Format(...)\<close>) and \<^verbatim>\<open>filepath.Join\<close>, \<^verbatim>\<open>filepath.Dir\<close> of
  the Go library. They are parameters of the model. \<open>'w\<close> is the state of everything
  outside the program (the file system with the contents of the open buffers), \<open>'f\<close> a
  file (the buffered writer on a file is identified with the file), \<open>'c\<close> the package
  collection. A call that can fail returns an error message or succeeds, and the state
  after it.
\<close>

record ('w, 'f, 'c) collaborators =
  MkDir :: "string \<Rightarrow> 'w \<Rightarrow> string option \<times> 'w"
  CreateFile :: "string \<Rightarrow> 'w \<Rightarrow> (string + 'f) \<times> 'w"
  ChecksumsForFile :: "string \<Rightarrow> 'w \<Rightarrow> (string + ChecksumInfo) \<times> 'w"
  NewPackageListFromRefList :: "string list \<Rightarrow> 'c \<Rightarrow> string + Package list"
  Package_MatchesArchitecture :: "Package \<Rightarrow> string \<Rightarrow> bool"
  Package_LinkFromPool :: "Package \<Rightarrow> string \<Rightarrow> string \<Rightarrow> 'w \<Rightarrow> string option \<times> 'w"
  Package_Stanza :: "Package \<Rightarrow> Stanza"
  Stanza_WriteTo :: "Stanza \<Rightarrow> 'f \<Rightarrow> 'w \<Rightarrow> string option \<times> 'w"
  WriteByte :: "char \<Rightarrow> 'f \<Rightarrow> 'w \<Rightarrow> string option \<times> 'w"
  Flush :: "'f \<Rightarrow> 'w \<Rightarrow> string option \<times> 'w"
  CompressFile :: "'f \<Rightarrow> 'w \<Rightarrow> string option \<times> 'w"
  File_Close :: "'f \<Rightarrow> 'w \<Rightarrow> 'w"
  File_Name :: "'f \<Rightarrow> string"
  DetachedSign :: "string \<Rightarrow> string \<Rightarrow> 'w \<Rightarrow> string option \<times> 'w"
  ClearSign :: "string \<Rightarrow> string \<Rightarrow> 'w \<Rightarrow> string option \<times> 'w"
  Now :: "'w \<Rightarrow> string"
  filepath_Join :: "string list \<Rightarrow> string"
  filepath_Dir :: "string \<Rightarrow> string"

text \<open>
  Modelled from the spec: the methods \<^verbatim>\<open>Len\<close>, \<^verbatim>\<open>Architectures\<close> and \<^verbatim>\<open>ForEach\<close> of
  the materialized package list, which publish.go calls and which are not part of the
  two source files. The list is the sequence of its packages ``in list order'';
  \<^verbatim>\<open>Architectures\<close> is ``the union of architectures present in the materialized
  list''; \<^verbatim>\<open>ForEach\<close> hands one package after the other to the handler and stops at
  the first error, which it returns.
\<close>

definition PackageList_Len :: "Package list \<Rightarrow> nat" where
  "PackageList_Len list = length list"

definition PackageList_Architectures :: "Package list \<Rightarrow> string list" where
  "PackageList_Architectures list = remdups (map Architecture list)"

fun PackageList_ForEach ::
  "Package list \<Rightarrow> (Package \<Rightarrow> 'w \<Rightarrow> string option \<times> 'w) \<Rightarrow> 'w \<Rightarrow> string option \<times> 'w" where
  "PackageList_ForEach [] handler w = (None, w)"
| "PackageList_ForEach (pkg # rest) handler w =
     (case handler pkg w of
        (Some err, w1) \<Rightarrow> (Some err, w1)
      | (None, w1) \<Rightarrow> PackageList_ForEach rest handler w1)"

subsection \<open>Formatting\<close>

text \<open>
  \<^verbatim>\<open>strings.Join\<close> and the verbs \<^verbatim>\<open>%s\<close> and \<^verbatim>\<open>%8d\<close> of \<^verbatim>\<open>fmt.Sprintf\<close>: a decimal
  number, right-justified with spaces to a width of 8.
\<close>

fun strings_Join :: "string list \<Rightarrow> string \<Rightarrow> string" where
  "strings_Join [] sep = ''''"
| "strings_Join [a] sep = a"
| "strings_Join (a # b # rest) sep = a @ sep @ strings_Join (b # rest) sep"

fun decimal :: "nat \<Rightarrow> string" where
  "decimal n =
     (if n < 10 then [char_of (48 + n)]
      else decimal (n div 10) @ [char_of (48 + n mod 10)])"

definition format_d :: "int \<Rightarrow> string" where
  "format_d i = (if i < 0 then ''-'' @ decimal (nat (- i)) else decimal (nat i))"

definition format_8d :: "int \<Rightarrow> string" where
  "format_8d i = replicate (8 - length (format_d i)) (CHR '' '') @ format_d i"

definition newline :: string where
  "newline = [CHR 0x0A]"

text \<open>\<^verbatim>\<open>fmt.Sprintf(" %s %8d %s\n", digest, info.Size, path)\<close>.\<close>

definition checksum_line :: "string \<Rightarrow> int \<Rightarrow> string \<Rightarrow> string" where
  "checksum_line digest sz path =
     '' '' @ digest @ '' '' @ format_8d sz @ '' '' @ path @ newline"

subsection \<open>Publish\<close>

text \<open>
  The handler that \<^verbatim>\<open>Publish\<close> gives to \<^verbatim>\<open>list.ForEach\<close> for one architecture
  (lines 85 to 104).
\<close>

definition publish_package ::
  "('w, 'f, 'c) collaborators \<Rightarrow> PublishedRepo \<Rightarrow> string \<Rightarrow> 'f \<Rightarrow> Package \<Rightarrow> 'w
     \<Rightarrow> string option \<times> 'w" where
  "publish_package env p arch bufWriter pkg w =
     (if Package_MatchesArchitecture env pkg arch then
        (case Package_LinkFromPool env pkg (Prefix p) (Component p) w of
           (Some err, w1) \<Rightarrow> (Some err, w1)
         | (None, w1) \<Rightarrow>
             (case Stanza_WriteTo env (Package_Stanza env pkg) bufWriter w1 of
                (Some err, w2) \<Rightarrow> (Some err, w2)
              | (None, w2) \<Rightarrow> WriteByte env (CHR 0x0A) bufWriter w2))
      else (None, w))"

text \<open>
  The body of the loop over the architectures (lines 72 to 138): the generated files go
  in and come out, a Go map from relative path to checksum info, as the association
  list of its entries.
\<close>

definition publish_architecture ::
  "('w, 'f, 'c) collaborators \<Rightarrow> PublishedRepo \<Rightarrow> Package list \<Rightarrow> string \<Rightarrow> string
     \<Rightarrow> (string \<times> ChecksumInfo) list \<Rightarrow> 'w
     \<Rightarrow> (error + (string \<times> ChecksumInfo) list) \<times> 'w" where
  "publish_architecture env p list basePath arch generatedFiles w =
     (let relativePath = filepath_Join env [Component p, ''binary-'' @ arch, ''Packages''] in
      case MkDir env (filepath_Dir env (filepath_Join env [basePath, relativePath])) w of
        (Some err, w1) \<Rightarrow> (Inl (Raw err), w1)
      | (None, w1) \<Rightarrow>
      (case CreateFile env (filepath_Join env [basePath, relativePath]) w1 of
        (Inl err, w2) \<Rightarrow> (Inl (Errorf ''unable to creates Packages file: %s'' [err]), w2)
      | (Inr packagesFile, w2) \<Rightarrow>
      (case PackageList_ForEach list (publish_package env p arch packagesFile) w2 of
        (Some err, w3) \<Rightarrow> (Inl (Errorf ''unable to creates process packages: %s'' [err]), w3)
      | (None, w3) \<Rightarrow>
      (case Flush env packagesFile w3 of
        (Some err, w4) \<Rightarrow> (Inl (Errorf ''unable to write Packages file: %s'' [err]), w4)
      | (None, w4) \<Rightarrow>
      (case CompressFile env packagesFile w4 of
        (Some err, w5) \<Rightarrow> (Inl (Errorf ''unable to compress Packages files: %s'' [err]), w5)
      | (None, w5) \<Rightarrow>
      (let w6 = File_Close env packagesFile w5 in
       case ChecksumsForFile env (filepath_Join env [basePath, relativePath]) w6 of
        (Inl err, w7) \<Rightarrow> (Inl (Errorf ''unable to collect checksums: %s'' [err]), w7)
      | (Inr checksumInfo, w7) \<Rightarrow>
      (let generatedFiles1 = AList.update relativePath checksumInfo generatedFiles in
       case ChecksumsForFile env (filepath_Join env [basePath, relativePath @ ''.gz'']) w7 of
        (Inl err, w8) \<Rightarrow> (Inl (Errorf ''unable to collect checksums: %s'' [err]), w8)
      | (Inr checksumInfo, w8) \<Rightarrow>
      (let generatedFiles2 = AList.update (relativePath @ ''.gz'') checksumInfo generatedFiles1 in
       case ChecksumsForFile env (filepath_Join env [basePath, relativePath @ ''.bz2'']) w8 of
        (Inl err, w9) \<Rightarrow> (Inl (Errorf ''unable to collect checksums: %s'' [err]), w9)
      | (Inr checksumInfo, w9) \<Rightarrow>
          (Inr (AList.update (relativePath @ ''.bz2'') checksumInfo generatedFiles2), w9)))))))))"

text \<open>The loop over the architectures (line 71).\<close>

fun publish_architectures ::
  "('w, 'f, 'c) collaborators \<Rightarrow> PublishedRepo \<Rightarrow> Package list \<Rightarrow> string \<Rightarrow> string list
     \<Rightarrow> (string \<times> ChecksumInfo) list \<Rightarrow> 'w
     \<Rightarrow> (error + (string \<times> ChecksumInfo) list) \<times> 'w" where
  "publish_architectures env p list basePath [] generatedFiles w = (Inr generatedFiles, w)"
| "publish_architectures env p list basePath (arch # archs) generatedFiles w =
     (case publish_architecture env p list basePath arch generatedFiles w of
        (Inl err, w1) \<Rightarrow> (Inl err, w1)
      | (Inr generatedFiles1, w1) \<Rightarrow>
          publish_architectures env p list basePath archs generatedFiles1 w1)"

text \<open>
  The Release stanza (lines 142 to 158). The loop over the generated files visits the
  entries of the map in the order of the association list (Go leaves the order open).
\<close>

definition add_checksums :: "Stanza \<Rightarrow> string \<times> ChecksumInfo \<Rightarrow> Stanza" where
  "add_checksums release e =
     (case e of (path, info) \<Rightarrow>
        (let r1 = AList.update ''MD5Sum''
                    (field release ''MD5Sum'' @ checksum_line (MD5 info) (Size info) path) release;
             r2 = AList.update ''SHA1''
                    (field r1 ''SHA1'' @ checksum_line (SHA1 info) (Size info) path) r1
         in AList.update ''SHA256''
              (field r2 ''SHA256'' @ checksum_line (SHA256 info) (Size info) path) r2))"

definition Release ::
  "PublishedRepo \<Rightarrow> string \<Rightarrow> (string \<times> ChecksumInfo) list \<Rightarrow> Stanza" where
  "Release p date generatedFiles =
     foldl add_checksums
       [(''Origin'', Prefix p @ '' '' @ Distribution p),
        (''Label'', Prefix p @ '' '' @ Distribution p),
        (''Codename'', Distribution p),
        (''Date'', date),
        (''Components'', Component p),
        (''Architectures'', strings_Join (slice (Architectures p)) '' ''),
        (''Description'', ''Generated by aptly'' @ newline),
        (''MD5Sum'', newline),
        (''SHA1'', newline),
        (''SHA256'', newline)]
       generatedFiles"

text \<open>Writing and signing the Release file (lines 160 to 190).\<close>

definition publish_release ::
  "('w, 'f, 'c) collaborators \<Rightarrow> string \<Rightarrow> Stanza \<Rightarrow> 'w \<Rightarrow> error option \<times> 'w" where
  "publish_release env basePath release w =
     (case CreateFile env (filepath_Join env [basePath, ''Release'']) w of
        (Inl err, w1) \<Rightarrow> (Some (Errorf ''unable to create Release file: %s'' [err]), w1)
      | (Inr releaseFile, w1) \<Rightarrow>
      (case Stanza_WriteTo env release releaseFile w1 of
        (Some err, w2) \<Rightarrow> (Some (Errorf ''unable to create Release file: %s'' [err]), w2)
      | (None, w2) \<Rightarrow>
      (case Flush env releaseFile w2 of
        (Some err, w3) \<Rightarrow> (Some (Errorf ''unable to create Release file: %s'' [err]), w3)
      | (None, w3) \<Rightarrow>
      (let releaseFilename = File_Name env releaseFile;
           w4 = File_Close env releaseFile w3 in
       case DetachedSign env releaseFilename (releaseFilename @ ''.gpg'') w4 of
        (Some err, w5) \<Rightarrow> (Some (Errorf ''unable to sign Release file: %s'' [err]), w5)
      | (None, w5) \<Rightarrow>
      (case ClearSign env releaseFilename
              (filepath_Join env [filepath_Dir env releaseFilename, ''InRelease'']) w5 of
        (Some err, w6) \<Rightarrow> (Some (Errorf ''unable to sign Release file: %s'' [err]), w6)
      | (None, w6) \<Rightarrow> (None, w6))))))"

text \<open>
  \<^verbatim>\<open>Publish\<close> from the loaded list on (lines 56 to 190). The receiver is a pointer, and
  line 61 assigns to its field \<^verbatim>\<open>Architectures\<close>: the published repository comes out
  with the error and the state.
\<close>

definition publish_list ::
  "('w, 'f, 'c) collaborators \<Rightarrow> PublishedRepo \<Rightarrow> string \<Rightarrow> Package list \<Rightarrow> 'w
     \<Rightarrow> error option \<times> PublishedRepo \<times> 'w" where
  "publish_list env p basePath list w =
     (if PackageList_Len list = 0 then
        (Some (Errorf ''repository is empty, can't publish'' []), p, w)
      else
        (let p1 = (if Architectures p = None
                   then p\<lparr>Architectures := Some (PackageList_Architectures list)\<rparr> else p) in
         if length (slice (Architectures p1)) = 0 then
           (Some (Errorf
              ''unable to figure out list of architectures, please supply explicit list'' []),
            p1, w)
         else
           (case publish_architectures env p1 list basePath (slice (Architectures p1)) [] w of
              (Inl err, w1) \<Rightarrow> (Some err, p1, w1)
            | (Inr generatedFiles, w1) \<Rightarrow>
                (case publish_release env basePath (Release p1 (Now env w1) generatedFiles) w1 of
                   (err, w2) \<Rightarrow> (err, p1, w2)))))"

text \<open>\<^verbatim>\<open>Publish\<close> (lines 39 to 191); the signer is among the collaborators.\<close>

definition Publish ::
  "('w, 'f, 'c) collaborators \<Rightarrow> PublishedRepo \<Rightarrow> 'c \<Rightarrow> 'w
     \<Rightarrow> error option \<times> PublishedRepo \<times> 'w" where
  "Publish env p packageCollection w =
     (case MkDir env (filepath_Join env [Prefix p, ''pool'']) w of
        (Some err, w1) \<Rightarrow> (Some (Raw err), p, w1)
      | (None, w1) \<Rightarrow>
      (let basePath = filepath_Join env [Prefix p, ''dists'', Distribution p] in
       case MkDir env basePath w1 of
        (Some err, w2) \<Rightarrow> (Some (Raw err), p, w2)
      | (None, w2) \<Rightarrow>
      (case NewPackageListFromRefList env (RefList (snapshot p)) packageCollection of
        Inl err \<Rightarrow> (Some (Errorf ''unable to load packages: %s'' [err]), p, w2)
      | Inr list \<Rightarrow> publish_list env p basePath list w2)))"

text \<open>
  The three errors of \<^verbatim>\<open>Publish\<close> that the spec names the unresolved-package-reference
  error, the empty-repository error and the missing-architectures error.
\<close>

definition UnresolvedReferenceError :: "string \<Rightarrow> error" where
  "UnresolvedReferenceError err = Errorf ''unable to load packages: %s'' [err]"

definition EmptyRepositoryError :: error where
  "EmptyRepositoryError = Errorf ''repository is empty, can't publish'' []"

definition MissingArchitecturesError :: error where
  "MissingArchitecturesError =
     Errorf ''unable to figure out list of architectures, please supply explicit list'' []"

text \<open>
  The relative paths under which the loop records checksums, three for every
  architecture of the list, and a checksum block of the Release stanza as the spec
  describes it: the newline after the field name, then one line for every generated
  file.
\<close>

definition generated_paths ::
  "('w, 'f, 'c) collaborators \<Rightarrow> PublishedRepo \<Rightarrow> string list \<Rightarrow> string list" where
  "generated_paths env p archs =
     concat (map (\<lambda>arch.
       [filepath_Join env [Component p, ''binary-'' @ arch, ''Packages''],
        filepath_Join env [Component p, ''binary-'' @ arch, ''Packages''] @ ''.gz'',
        filepath_Join env [Component p, ''binary-'' @ arch, ''Packages''] @ ''.bz2'']) archs)"

definition checksum_block ::
  "(ChecksumInfo \<Rightarrow> string) \<Rightarrow> (string \<times> ChecksumInfo) list \<Rightarrow> string" where
  "checksum_block digest generatedFiles =
     newline @ concat (map (\<lambda>(path, info). checksum_line (digest info) (Size info) path)
                         generatedFiles)"

text \<open>
  The errors that \<^verbatim>\<open>Publish\<close> returns before it does any work for an architecture.
\<close>

definition early_error :: "error \<Rightarrow> bool" where
  "early_error e \<longleftrightarrow>
     e = EmptyRepositoryError \<or> e = MissingArchitecturesError
     \<or> (\<exists>m. e = UnresolvedReferenceError m)"

text \<open>
  The list of architectures that \<^verbatim>\<open>Publish\<close> works with: the explicit one, or the one
  inferred from the loaded list when the field is \<^verbatim>\<open>nil\<close>.
\<close>

definition effective_architectures :: "PublishedRepo \<Rightarrow> Package list \<Rightarrow> string list" where
  "effective_architectures p list =
     (case Architectures p of None \<Rightarrow> PackageList_Architectures list | Some archs \<Rightarrow> archs)"

section \<open>Example data\<close>

subsection \<open>A package list and queries\<close>

text \<open>
  An instance of the parameters: a dependency is satisfied by a package of the same name
  whose version stands in the relation to the operand (compared as strings here), the
  architecture \<^verbatim>\<open>all\<close> matches every architecture, a field is looked up among the
  control fields, and a pattern matches the equal string.
\<close>

definition example_externals :: externals where
  "example_externals =
     \<lparr>MatchesDependency = (\<lambda>p d.
        if Pkg d \<noteq> Name p then Inr False
        else (case Relation d of
           VersionDontCare \<Rightarrow> Inr True
         | VersionEqual \<Rightarrow> Inr (Package.Version p = Dependency.Version d)
         | VersionGreater \<Rightarrow> Inr (Package.Version p > Dependency.Version d)
         | VersionGreaterOrEqual \<Rightarrow> Inr (Package.Version p \<ge> Dependency.Version d)
         | VersionLess \<Rightarrow> Inr (Package.Version p < Dependency.Version d)
         | VersionLessOrEqual \<Rightarrow> Inr (Package.Version p \<le> Dependency.Version d)
         | VersionPatternMatch \<Rightarrow> Inr (Package.Version p = Dependency.Version d)
         | VersionRegexp \<Rightarrow> Inl (Panic ''regexp matching not implemented yet'')
         | OtherRelation n \<Rightarrow> Inl (Panic ''unknown relation''))),
      MatchesArchitecture = (\<lambda>p a. Architecture p = ''all'' \<or> Architecture p = a),
      GetField = (\<lambda>p f. case map_of (Fields p) f of None \<Rightarrow> '''' | Some v \<Rightarrow> v),
      filepath_Match = (\<lambda>pattern name. (pattern = name, None))\<rparr>"

definition nginx :: Package where
  "nginx = \<lparr>Name = ''nginx'', Version = ''1.0'', Architecture = ''amd64'',
            Fields = [(''Section'', ''web'')]\<rparr>"

definition docs :: Package where
  "docs = \<lparr>Name = ''docs'', Version = ''2.0'', Architecture = ''all'', Fields = []\<rparr>"

definition example_list :: PackageList where
  "example_list = [(''Pamd64 nginx 1.0'', nginx), (''Pall docs 2.0'', docs)]"

definition odd_package :: Package where
  "odd_package = \<lparr>Name = ''tools'', Version = ''1.0'', Architecture = ''amd64 dev'', Fields = []\<rparr>"

definition odd_list :: PackageList where
  "odd_list = [(''Pamd64 dev tools 1.0'', odd_package)]"

definition example_query :: PackageQuery where
  "example_query =
     OrQuery (PkgQuery ''nginx'' ''1.0'' ''amd64'')
             (AndQuery (FieldQuery ''Section'' VersionEqual ''web'')
                       (DependencyQuery \<lparr>Pkg = ''nginx'', Relation = VersionDontCare, Dependency.Version = ''''\<rparr>))"


subsection \<open>Collaborators of the publish pipeline and repositories\<close>

text \<open>
  An instance of the collaborators: a file system in memory (the directories made and
  the text of every file by path, a buffered write going to the file at once), a package
  collection that maps a reference to its package, digests that are the name of the
  algorithm, a signer that writes fixed texts, a fixed clock, and paths joined with
  \<^verbatim>\<open>/\<close>. No call of this instance fails except the checksums of a file that does not
  exist and the loading of a reference that the collection does not have.
\<close>

record memory =
  dirs :: "string list"
  files :: "(string \<times> string) list"

definition append_file :: "string \<Rightarrow> string \<Rightarrow> memory \<Rightarrow> memory" where
  "append_file path text w =
     w\<lparr>files := AList.update path (field (files w) path @ text) (files w)\<rparr>"

definition write_file :: "string \<Rightarrow> string \<Rightarrow> memory \<Rightarrow> memory" where
  "write_file path text w = w\<lparr>files := AList.update path text (files w)\<rparr>"

definition render :: "Stanza \<Rightarrow> string" where
  "render st = concat (map (\<lambda>(name, val). name @ '': '' @ val @ newline) st)"

definition example_Dir :: "string \<Rightarrow> string" where
  "example_Dir path = rev (tl (dropWhile (\<lambda>c. c \<noteq> CHR ''/'') (rev path)))"

definition example_load :: "string list \<Rightarrow> (string \<times> Package) list \<Rightarrow> string + Package list" where
  "example_load refs collection =
     (if \<forall>ref\<in>set refs. map_of collection ref \<noteq> None
      then Inr (map (\<lambda>ref. the (map_of collection ref)) refs)
      else Inl ''package not found'')"

definition example_collaborators ::
  "(memory, string, (string \<times> Package) list) collaborators" where
  "example_collaborators =
     \<lparr>MkDir = (\<lambda>path w. (None, w\<lparr>dirs := List.insert path (dirs w)\<rparr>)),
      CreateFile = (\<lambda>path w. (Inr path, write_file path '''' w)),
      ChecksumsForFile = (\<lambda>path w.
        case map_of (files w) path of
          None \<Rightarrow> (Inl ''no such file'', w)
        | Some text \<Rightarrow>
            (Inr \<lparr>Size = int (length text), MD5 = ''md5'', SHA1 = ''sha1'', SHA256 = ''sha256''\<rparr>,
             w)),
      NewPackageListFromRefList = example_load,
      Package_MatchesArchitecture = (\<lambda>pkg arch. Architecture pkg = ''all'' \<or> Architecture pkg = arch),
      Package_LinkFromPool = (\<lambda>pkg prefix component w. (None, w)),
      Package_Stanza = (\<lambda>pkg. [(''Package'', Name pkg), (''Version'', Package.Version pkg),
                                 (''Architecture'', Architecture pkg)]),
      Stanza_WriteTo = (\<lambda>st file w. (None, append_file file (render st) w)),
      WriteByte = (\<lambda>c file w. (None, append_file file [c] w)),
      Flush = (\<lambda>file w. (None, w)),
      CompressFile = (\<lambda>file w.
        (None, write_file (file @ ''.bz2'') ''bzip2'' (write_file (file @ ''.gz'') ''gzip'' w))),
      File_Close = (\<lambda>file w. w),
      File_Name = (\<lambda>file. file),
      DetachedSign = (\<lambda>source target w. (None, write_file target ''signature'' w)),
      ClearSign = (\<lambda>source target w. (None, write_file target ''signed text'' w)),
      Now = (\<lambda>w. ''Sun, 1 Nov 2026 12:00:00 UTC''),
      filepath_Join = (\<lambda>elems. strings_Join elems ''/''),
      filepath_Dir = example_Dir\<rparr>"

definition example_collection :: "(string \<times> Package) list" where
  "example_collection = [(''Pamd64 nginx 1.0'', nginx), (''Pall docs 2.0'', docs)]"

definition example_snapshot :: Snapshot where
  "example_snapshot = \<lparr>UUID = ''snap-1'', RefList = [''Pamd64 nginx 1.0'', ''Pall docs 2.0'']\<rparr>"

definition empty_snapshot :: Snapshot where
  "empty_snapshot = \<lparr>UUID = ''snap-0'', RefList = []\<rparr>"

definition empty_memory :: memory where
  "empty_memory = \<lparr>dirs = [], files = []\<rparr>"

definition empty_repo :: PublishedRepo where
  "empty_repo = NewPublishedRepo ''ppa'' ''squeeze'' ''main'' None empty_snapshot"

definition example_repo :: PublishedRepo where
  "example_repo = NewPublishedRepo ''ppa'' ''squeeze'' ''main'' None example_snapshot"

definition no_architectures_repo :: PublishedRepo where
  "no_architectures_repo = NewPublishedRepo ''ppa'' ''squeeze'' ''main'' (Some []) example_snapshot"

definition amd64_repo :: PublishedRepo where
  "amd64_repo = NewPublishedRepo ''ppa'' ''squeeze'' ''main'' (Some [''amd64'']) example_snapshot"

definition duplicate_repo :: PublishedRepo where
  "duplicate_repo =
     NewPublishedRepo ''ppa'' ''squeeze'' ''main'' (Some [''i386'', ''i386'']) example_snapshot"

text \<open>The state of the example file system after the first two steps of \<^verbatim>\<open>Publish\<close>.\<close>

definition pool_made :: memory where
  "pool_made = \<lparr>dirs = [''ppa/pool''], files = []\<rparr>"

definition directories_made :: memory where
  "directories_made = \<lparr>dirs = [''ppa/dists/squeeze'', ''ppa/pool''], files = []\<rparr>"

section \<open>Properties of the query engine\<close>

subsection \<open>Auxiliary facts\<close>

lemma length_Add: "length (Add r p h) = length h"
  by (simp add: Add_def)

lemma take_Add: "n \<le> r \<Longrightarrow> take n (Add r p h) = take n h"
  by (simp add: Add_def)

lemma length_fold_Add: "length (fold (Add r) ps h) = length h"
  by (induction ps arbitrary: h) (simp_all add: length_Add)

lemma take_fold_Add: "n \<le> r \<Longrightarrow> take n (fold (Add r) ps h) = take n h"
  by (induction ps arbitrary: h) (simp_all add: take_Add)

lemma length_Append: "length (Append r other h) = length h"
  by (simp add: Append_def)

lemma take_Append: "n \<le> r \<Longrightarrow> take n (Append r other h) = take n h"
  by (simp add: Append_def)

lemma scan_loop_frame:
  "scan_loop x q ps r h = (res, h') \<Longrightarrow>
     length h' = length h \<and> (n \<le> r \<longrightarrow> take n h' = take n h)"
proof (induction ps arbitrary: h)
  case Nil
  then show ?case by simp
next
  case (Cons e es)
  show ?case
  proof (cases "Matches x q (snd e)")
    case (Inl err)
    with Cons.prems show ?thesis by simp
  next
    case (Inr b)
    with Cons.prems
    have "scan_loop x q es r (if b then Add r (snd e) h else h) = (res, h')" by simp
    from Cons.IH [OF this] show ?thesis
      by (simp add: length_Add take_Add split: if_splits)
  qed
qed

lemma Scan_frame:
  assumes "Scan x l q h = (res, h')"
  shows "length h' = Suc (length h) \<and> take (length h) h' = h
         \<and> (\<forall>r. res = Inr r \<longrightarrow> r = length h)"
proof (cases "deref (h @ [[]]) l")
  case (Inl err)
  with assms show ?thesis by (auto simp: Scan_def NewPackageList_def)
next
  case (Inr ps)
  obtain o2 h2 where sl: "scan_loop x q ps (length h) (h @ [[]]) = (o2, h2)"
    by (cases "scan_loop x q ps (length h) (h @ [[]])") auto
  from scan_loop_frame [OF sl, of "length h"]
  have "length h2 = Suc (length h)" "take (length h) h2 = h" by simp_all
  moreover from assms Inr sl have "h' = h2" and "\<forall>r. res = Inr r \<longrightarrow> r = length h"
    by (auto simp: Scan_def NewPackageList_def split: option.splits)
  ultimately show ?thesis by simp
qed

lemma take_prefix_trans:
  assumes "take (length h) h1 = h" "take (length h1) h2 = h1" "length h \<le> length h1"
  shows "take (length h) h2 = h"
proof -
  have "take (length h) h2 = take (length h) (take (length h1) h2)"
    using assms(3) by (simp add: min_def)
  with assms show ?thesis by simp
qed

lemma Query_Or_slow:
  "\<not> (Fast l \<and> Fast r) \<Longrightarrow> Query x (OrQuery l r) list h = Scan x list (OrQuery l r) h"
  by auto

lemma Query_Or_fast:
  "Fast l \<Longrightarrow> Fast r \<Longrightarrow> Query x (OrQuery l r) list h =
     (case Query x l list h of
        (Inl err, h1) \<Rightarrow> (Inl err, h1)
      | (Inr result, h1) \<Rightarrow>
          (case Query x r list h1 of
             (Inl err, h2) \<Rightarrow> (Inl err, h2)
           | (Inr other, h2) \<Rightarrow> (Inr result, Append result other h2)))"
  by simp

lemma Query_And_slow:
  "\<not> Fast l \<Longrightarrow> \<not> Fast r \<Longrightarrow> Query x (AndQuery l r) list h = Scan x list (AndQuery l r) h"
  by simp

lemma Query_And_left:
  "Fast l \<Longrightarrow> Query x (AndQuery l r) list h =
     (case Query x l list h of
        (Inl err, h1) \<Rightarrow> (Inl err, h1)
      | (Inr result, h1) \<Rightarrow> Scan x result r h1)"
  by simp

lemma Query_And_right:
  "\<not> Fast l \<Longrightarrow> Fast r \<Longrightarrow> Query x (AndQuery l r) list h =
     (case Query x r list h of
        (Inl err, h1) \<Rightarrow> (Inl err, h1)
      | (Inr result, h1) \<Rightarrow> Scan x result l h1)"
  by simp

lemma Query_frame:
  "Query x q l h = (res, h') \<Longrightarrow>
     length h \<le> length h' \<and> take (length h) h' = h
     \<and> (\<forall>r. res = Inr r \<longrightarrow> length h \<le> r \<and> r < length h')"
proof (induction q arbitrary: h res h')
  case (OrQuery a b)
  show ?case
  proof (cases "Fast a \<and> Fast b")
    case False
    from OrQuery.prems have "Scan x l (OrQuery a b) h = (res, h')"
      unfolding Query_Or_slow [OF False] .
    from Scan_frame [OF this] show ?thesis by auto
  next
    case True
    obtain o1 h1 where q1: "Query x a l h = (o1, h1)" by (cases "Query x a l h") auto
    note f1 = OrQuery.IH(1) [OF q1]
    show ?thesis
    proof (cases o1)
      case (Inl err)
      with OrQuery.prems True q1 f1 show ?thesis by auto
    next
      case (Inr result)
      obtain o2 h2 where q2: "Query x b l h1 = (o2, h2)" by (cases "Query x b l h1") auto
      note f2 = OrQuery.IH(2) [OF q2]
      have pre: "take (length h) h2 = h"
        using take_prefix_trans f1 f2 by blast
      show ?thesis
      proof (cases o2)
        case (Inl err)
        with OrQuery.prems True q1 q2 Inr f1 f2 pre show ?thesis by auto
      next
        case (Inr other)
        with OrQuery.prems True q1 q2 \<open>o1 = Inr result\<close>
        have "h' = Append result other h2" "res = Inr result" by auto
        with f1 f2 pre \<open>o1 = Inr result\<close> show ?thesis
          by (auto simp: length_Append take_Append)
      qed
    qed
  qed
next
  case (AndQuery a b)
  show ?case
  proof (cases "Fast a \<or> Fast b")
    case False
    with AndQuery.prems have "Scan x l (AndQuery a b) h = (res, h')" by simp
    from Scan_frame [OF this] show ?thesis by auto
  next
    case True
    show ?thesis
    proof (cases "Fast a")
      case fa: True
      obtain o1 h1 where q1: "Query x a l h = (o1, h1)" by (cases "Query x a l h") auto
      note f1 = AndQuery.IH(1) [OF q1]
      show ?thesis
      proof (cases o1)
        case (Inl err)
        with AndQuery.prems True fa q1 f1 show ?thesis by auto
      next
        case (Inr result)
        with AndQuery.prems True fa q1 have "Scan x result b h1 = (res, h')" by auto
        from Scan_frame [OF this] f1 take_prefix_trans [of h h1 h'] show ?thesis by auto
      qed
    next
      case fa: False
      obtain o1 h1 where q1: "Query x b l h = (o1, h1)" by (cases "Query x b l h") auto
      note f1 = AndQuery.IH(2) [OF q1]
      show ?thesis
      proof (cases o1)
        case (Inl err)
        with AndQuery.prems True fa q1 f1 show ?thesis by auto
      next
        case (Inr result)
        with AndQuery.prems True fa q1 have "Scan x result a h1 = (res, h')" by auto
        from Scan_frame [OF this] f1 take_prefix_trans [of h h1 h'] show ?thesis by auto
      qed
    qed
  qed
next
  case (NotQuery q)
  then have "Scan x l (NotQuery q) h = (res, h')" by simp
  from Scan_frame [OF this] show ?case by auto
next
  case (FieldQuery f r v)
  then have "Scan x l (FieldQuery f r v) h = (res, h')" by simp
  from Scan_frame [OF this] show ?case by auto
next
  case (PkgQuery n v a)
  then show ?case
    by (auto simp: NewPackageList_def length_Add take_Add split: sum.splits option.splits)
next
  case (DependencyQuery d)
  then show ?case
    by (auto simp: NewPackageList_def length_fold_Add take_fold_Add split: sum.splits)
qed


lemma split_at_separator:
  "c \<notin> set xs \<Longrightarrow> c \<notin> set ys \<Longrightarrow> xs @ c # r1 = ys @ c # r2 \<Longrightarrow> xs = ys \<and> r1 = r2"
proof (induction xs arbitrary: ys)
  case Nil
  then show ?case by (cases ys) auto
next
  case (Cons a xs)
  then show ?case by (cases ys) auto
qed

lemma key_unambiguous:
  assumes "nospace a1" "nospace n1" "nospace a2" "nospace n2"
    and "''P'' @ a1 @ '' '' @ n1 @ '' '' @ v1 = ''P'' @ a2 @ '' '' @ n2 @ '' '' @ v2"
  shows "a1 = a2 \<and> n1 = n2 \<and> v1 = v2"
proof -
  from assms(5) have "a1 @ CHR '' '' # (n1 @ '' '' @ v1) = a2 @ CHR '' '' # (n2 @ '' '' @ v2)"
    by simp
  with assms(1,3) have a: "a1 = a2" and "n1 @ '' '' @ v1 = n2 @ '' '' @ v2"
    using split_at_separator [of "CHR '' ''" a1 a2] by (auto simp: nospace_def)
  then have "n1 @ CHR '' '' # v1 = n2 @ CHR '' '' # v2" by simp
  with assms(2,4) have "n1 = n2 \<and> v1 = v2"
    using split_at_separator [of "CHR '' ''" n1 n2] by (auto simp: nospace_def)
  with a show ?thesis by simp
qed

lemma same_key_same_entry:
  "distinct (map fst L) \<Longrightarrow> e \<in> set L \<Longrightarrow> e' \<in> set L \<Longrightarrow> fst e = fst e' \<Longrightarrow> e = e'"
  by (metis eq_key_imp_eq_value prod.collapse)

lemma set_add_entry:
  assumes "distinct (map fst L)" "set acc \<subseteq> set L" "e \<in> set L"
  shows "set (add_entry acc e) = insert e (set acc)"
proof (cases "fst e \<in> fst ` set acc")
  case True
  then obtain e' where "e' \<in> set acc" "fst e' = fst e" by auto
  with assms have "e' = e" using same_key_same_entry [of L e' e] by auto
  with \<open>e' \<in> set acc\<close> True show ?thesis by (auto simp: add_entry_def)
next
  case False
  then show ?thesis by (simp add: add_entry_def)
qed

lemma set_foldl_add_entry:
  "distinct (map fst L) \<Longrightarrow> set acc \<subseteq> set L \<Longrightarrow> set es \<subseteq> set L \<Longrightarrow>
     set (foldl add_entry acc es) = set acc \<union> set es"
proof (induction es arbitrary: acc)
  case Nil
  then show ?case by simp
next
  case (Cons e es)
  from Cons.prems have s: "set (add_entry acc e) = insert e (set acc)"
    by (intro set_add_entry [of L]) auto
  with Cons.prems have "set (add_entry acc e) \<subseteq> set L" by auto
  with Cons.IH [of "add_entry acc e"] Cons.prems s show ?case by auto
qed

lemma fold_Add:
  "r < length h \<Longrightarrow>
     fold (Add r) ps h = h[r := foldl add_entry (h ! r) (map (\<lambda>p. (Key p, p)) ps)]"
  by (induction ps arbitrary: h) (simp_all add: Add_def)

lemma scan_loop_None:
  "scan_loop x q ps r h = (None, h') \<Longrightarrow> r < length h \<Longrightarrow>
     h' = h[r := foldl add_entry (h ! r)
                   (map (\<lambda>e. (Key (snd e), snd e))
                      (filter (\<lambda>e. Matches x q (snd e) = Inr True) ps))]
     \<and> (\<forall>e\<in>set ps. \<exists>b. Matches x q (snd e) = Inr b)"
proof (induction ps arbitrary: h)
  case Nil
  then show ?case by simp
next
  case (Cons e es)
  show ?case
  proof (cases "Matches x q (snd e)")
    case (Inl err)
    with Cons.prems show ?thesis by simp
  next
    case (Inr b)
    with Cons.prems
    have sl: "scan_loop x q es r (if b then Add r (snd e) h else h) = (None, h')" by simp
    have "r < length (if b then Add r (snd e) h else h)"
      using Cons.prems(2) by (simp add: Add_def)
    from Cons.IH [OF sl this] Inr Cons.prems(2) show ?thesis
      by (cases b) (auto simp: Add_def)
  qed
qed

lemma scan_loop_total:
  "\<forall>e\<in>set ps. \<exists>b. Matches x q (snd e) = Inr b \<Longrightarrow> \<exists>h'. scan_loop x q ps r h = (None, h')"
  by (induction ps arbitrary: h) auto

lemma wf_entries_id:
  "\<forall>e\<in>set ps. fst e = Key (snd e) \<Longrightarrow> map (\<lambda>e. (Key (snd e), snd e)) ps = ps"
  by (induction ps) auto

lemma Scan_content:
  assumes "Scan x l q h = (Inr r, h')" "l < length h"
    and "wf_list L" "set (h ! l) \<subseteq> set L"
  shows "set (h' ! r) = {e \<in> set (h ! l). Matches x q (snd e) = Inr True}
         \<and> (\<forall>e\<in>set (h ! l). \<exists>b. Matches x q (snd e) = Inr b)"
proof -
  let ?h1 = "h @ [[]]"
  from assms(2) have d: "deref ?h1 l = Inr (h ! l)" by (simp add: deref_def nth_append)
  with assms(1) have sl: "scan_loop x q (h ! l) (length h) ?h1 = (None, h')" and r: "r = length h"
    by (auto simp: Scan_def NewPackageList_def split: prod.splits option.splits)
  let ?sel = "filter (\<lambda>e. Matches x q (snd e) = Inr True) (h ! l)"
  from assms(3,4) have "\<forall>e\<in>set ?sel. fst e = Key (snd e)" by (fastforce simp: wf_list_def)
  then have id: "map (\<lambda>e. (Key (snd e), snd e)) ?sel = ?sel" by (rule wf_entries_id)
  from scan_loop_None [OF sl] id
  have h': "h' = ?h1[length h := foldl add_entry [] ?sel]"
    and tot: "\<forall>e\<in>set (h ! l). \<exists>b. Matches x q (snd e) = Inr b" by simp_all
  from h' r have "h' ! r = foldl add_entry [] ?sel" by simp
  moreover have "set (foldl add_entry [] ?sel) = set [] \<union> set ?sel"
    using assms(3,4) by (intro set_foldl_add_entry [of L]) (auto simp: wf_list_def)
  ultimately show ?thesis using tot by auto
qed

lemma Scan_total:
  assumes "l < length h" "\<forall>e\<in>set (h ! l). \<exists>b. Matches x q (snd e) = Inr b"
  shows "\<exists>h'. Scan x l q h = (Inr (length h), h')"
proof -
  from assms(1) have d: "deref (h @ [[]]) l = Inr (h ! l)" by (simp add: deref_def nth_append)
  from scan_loop_total [OF assms(2)] obtain h' where
    "scan_loop x q (h ! l) (length h) (h @ [[]]) = (None, h')" by blast
  with d show ?thesis by (simp add: Scan_def NewPackageList_def)
qed

lemma search_loop_Inr:
  "search_loop x dep ps = Inr found \<Longrightarrow>
     found = map snd (filter (\<lambda>e. MatchesDependency x (snd e) dep = Inr True) ps)
     \<and> (\<forall>e\<in>set ps. \<exists>b. MatchesDependency x (snd e) dep = Inr b)"
  by (induction ps arbitrary: found) (auto split: sum.splits if_splits)

lemma search_loop_total:
  "\<forall>e\<in>set ps. \<exists>b. MatchesDependency x (snd e) dep = Inr b \<Longrightarrow> \<exists>found. search_loop x dep ps = Inr found"
  by (induction ps) (auto split: sum.splits)

lemma nth_of_prefix: "take (length h) h1 = h \<Longrightarrow> l < length h \<Longrightarrow> h1 ! l = h ! l"
  by (metis nth_take)

lemma Scan_selects:
  assumes "Scan x l q h = (Inr r, h')" "l < length h" "wf_list L" "h ! l = L"
  shows "selects x q L (h' ! r)"
proof -
  from assms(4) have sub: "set (h ! l) \<subseteq> set L" by simp
  from Scan_content [OF assms(1,2,3) sub] assms(4)
  have "set (h' ! r) = {e \<in> set L. Matches x q (snd e) = Inr True}" by simp
  then show ?thesis unfolding selects_def by auto
qed

lemma Matches_And_True:
  "Matches x (AndQuery a b) p = Inr True \<longleftrightarrow>
     Matches x a p = Inr True \<and> Matches x b p = Inr True"
  by (cases "Matches x a p") auto

lemma Matches_And_value:
  "Matches x (AndQuery a b) p = Inr v \<Longrightarrow>
     \<exists>va. Matches x a p = Inr va \<and> (if va then Matches x b p = Inr v else \<not> v)"
  by (cases "Matches x a p") (auto split: if_splits)

lemma Matches_Or_True:
  "Matches x (OrQuery a b) p = Inr True \<longleftrightarrow>
     Matches x a p = Inr True \<or> (Matches x a p = Inr False \<and> Matches x b p = Inr True)"
  by (cases "Matches x a p") auto

lemma Matches_Or_value:
  "Matches x (OrQuery a b) p = Inr v \<Longrightarrow>
     \<exists>va. Matches x a p = Inr va \<and> (if va then v else Matches x b p = Inr v)"
  by (cases "Matches x a p") (auto split: if_splits)

lemma Scan_selects_And:
  assumes "Scan x result b h1 = (Inr r, h')" "result < length h1" "wf_list L"
    and "selects x a L (h1 ! result)"
  shows "selects x (AndQuery a b) L (h' ! r) \<and> selects x (AndQuery b a) L (h' ! r)"
proof -
  let ?R1 = "h1 ! result" and ?R = "h' ! r"
  from assms(4) have sub: "set ?R1 \<subseteq> set L"
    and i: "\<And>e v. e \<in> set ?R1 \<Longrightarrow> Matches x a (snd e) = Inr v \<Longrightarrow> v"
    and ii: "\<And>e. e \<in> set L \<Longrightarrow> Matches x a (snd e) = Inr True \<Longrightarrow> e \<in> set ?R1"
    unfolding selects_def by blast+
  from Scan_content [OF assms(1,2,3) sub]
  have c: "set ?R = {e \<in> set ?R1. Matches x b (snd e) = Inr True}" by simp
  have s: "set ?R \<subseteq> set L" using c sub by auto
  have ab1: "v" if "e \<in> set ?R" "Matches x (AndQuery a b) (snd e) = Inr v" for e v
  proof -
    from that(1) c have e: "e \<in> set ?R1" "Matches x b (snd e) = Inr True" by auto
    from Matches_And_value [OF that(2)] obtain va where
      va: "Matches x a (snd e) = Inr va" "if va then Matches x b (snd e) = Inr v else \<not> v" by blast
    from i [OF e(1) va(1)] va(2) e(2) show ?thesis by simp
  qed
  have ba1: "v" if "e \<in> set ?R" "Matches x (AndQuery b a) (snd e) = Inr v" for e v
  proof -
    from that(1) c have e: "e \<in> set ?R1" "Matches x b (snd e) = Inr True" by auto
    from Matches_And_value [OF that(2)] e(2) have "Matches x a (snd e) = Inr v" by auto
    from i [OF e(1) this] show ?thesis .
  qed
  have ab2: "e \<in> set ?R" if "e \<in> set L" "Matches x (AndQuery a b) (snd e) = Inr True" for e
  proof -
    from that(2) have "Matches x a (snd e) = Inr True" "Matches x b (snd e) = Inr True"
      using Matches_And_True by blast+
    with ii [OF that(1)] c show ?thesis by simp
  qed
  have ba2: "e \<in> set ?R" if "e \<in> set L" "Matches x (AndQuery b a) (snd e) = Inr True" for e
  proof -
    from that(2) have "Matches x a (snd e) = Inr True" "Matches x b (snd e) = Inr True"
      using Matches_And_True by blast+
    with ii [OF that(1)] c show ?thesis by simp
  qed
  from s ab1 ab2 have "selects x (AndQuery a b) L ?R" unfolding selects_def by blast
  moreover from s ba1 ba2 have "selects x (AndQuery b a) L ?R" unfolding selects_def by blast
  ultimately show ?thesis ..
qed

lemma selects_Or:
  assumes "wf_list L" "selects x a L R1" "selects x b L R2"
  shows "selects x (OrQuery a b) L (foldl add_entry R1 R2)"
proof -
  let ?R = "foldl add_entry R1 R2"
  from assms(2) have sub1: "set R1 \<subseteq> set L"
    and i1: "\<And>e v. e \<in> set R1 \<Longrightarrow> Matches x a (snd e) = Inr v \<Longrightarrow> v"
    and ii1: "\<And>e. e \<in> set L \<Longrightarrow> Matches x a (snd e) = Inr True \<Longrightarrow> e \<in> set R1"
    unfolding selects_def by blast+
  from assms(3) have sub2: "set R2 \<subseteq> set L"
    and i2: "\<And>e v. e \<in> set R2 \<Longrightarrow> Matches x b (snd e) = Inr v \<Longrightarrow> v"
    and ii2: "\<And>e. e \<in> set L \<Longrightarrow> Matches x b (snd e) = Inr True \<Longrightarrow> e \<in> set R2"
    unfolding selects_def by blast+
  from assms(1) sub1 sub2 have c: "set ?R = set R1 \<union> set R2"
    by (intro set_foldl_add_entry [of L]) (auto simp: wf_list_def)
  have s: "set ?R \<subseteq> set L" using c sub1 sub2 by auto
  have 1: "v" if "e \<in> set ?R" "Matches x (OrQuery a b) (snd e) = Inr v" for e v
  proof -
    from Matches_Or_value [OF that(2)] obtain va where
      va: "Matches x a (snd e) = Inr va" "if va then v else Matches x b (snd e) = Inr v" by blast
    from that(1) c consider "e \<in> set R1" | "e \<in> set R2" by auto
    then show ?thesis
    proof cases
      case 1
      from i1 [OF 1 va(1)] va(2) show ?thesis by simp
    next
      case 2
      show ?thesis
      proof (cases va)
        case True
        with va(2) show ?thesis by simp
      next
        case False
        with va(2) have "Matches x b (snd e) = Inr v" by simp
        from i2 [OF 2 this] show ?thesis .
      qed
    qed
  qed
  have 2: "e \<in> set ?R" if "e \<in> set L" "Matches x (OrQuery a b) (snd e) = Inr True" for e
  proof -
    from that(2) have "Matches x a (snd e) = Inr True \<or> Matches x b (snd e) = Inr True"
      using Matches_Or_True by blast
    with ii1 [OF that(1)] ii2 [OF that(1)] c show ?thesis by auto
  qed
  from s 1 2 show ?thesis unfolding selects_def by blast
qed


lemma Key_eq_iff:
  assumes "plain_package p" "nospace arch" "nospace name"
  shows "Key p = ''P'' @ arch @ '' '' @ name @ '' '' @ version \<longleftrightarrow>
         Name p = name \<and> Package.Version p = version \<and> Architecture p = arch"
proof
  assume "Key p = ''P'' @ arch @ '' '' @ name @ '' '' @ version"
  then have "''P'' @ Architecture p @ '' '' @ Name p @ '' '' @ Package.Version p
             = ''P'' @ arch @ '' '' @ name @ '' '' @ version"
    unfolding Key_def .
  moreover from assms(1) have "nospace (Architecture p)" "nospace (Name p)"
    unfolding plain_package_def by blast+
  ultimately show "Name p = name \<and> Package.Version p = version \<and> Architecture p = arch"
    using key_unambiguous assms(2,3) by blast
next
  assume "Name p = name \<and> Package.Version p = version \<and> Architecture p = arch"
  then show "Key p = ''P'' @ arch @ '' '' @ name @ '' '' @ version"
    unfolding Key_def by blast
qed


lemma DependencyQuery_selects:
  assumes "wf_list L" "search_loop x dep L = Inr found"
  shows "selects x (DependencyQuery dep) L (foldl add_entry [] (map (\<lambda>p. (Key p, p)) found))"
proof -
  let ?sel = "filter (\<lambda>e. MatchesDependency x (snd e) dep = Inr True) L"
  from search_loop_Inr [OF assms(2)] have f: "found = map snd ?sel" by simp
  from assms(1) have "\<forall>e\<in>set ?sel. fst e = Key (snd e)" unfolding wf_list_def by simp
  then have "map (\<lambda>e. (Key (snd e), snd e)) ?sel = ?sel" by (rule wf_entries_id)
  with f have m: "map (\<lambda>p. (Key p, p)) found = ?sel" by (simp add: comp_def)
  from assms(1) have dist: "distinct (map fst L)" unfolding wf_list_def by blast
  have "set (foldl add_entry [] ?sel) = set [] \<union> set ?sel"
    by (rule set_foldl_add_entry [OF dist]) simp_all
  then have "set (foldl add_entry [] ?sel) = {e \<in> set L. Matches x (DependencyQuery dep) (snd e) = Inr True}"
    by simp
  then have "selects x (DependencyQuery dep) L (foldl add_entry [] ?sel)"
    unfolding selects_def by auto
  with m show ?thesis by simp
qed


lemma PkgQuery_selects:
  assumes "wf_list L" "\<forall>e\<in>set L. plain_package (snd e)" "nospace arch" "nospace name"
  shows "selects x (PkgQuery name version arch) L
           (case map_of L (''P'' @ arch @ '' '' @ name @ '' '' @ version) of
              None \<Rightarrow> [] | Some pkg \<Rightarrow> [(Key pkg, pkg)])"
proof -
  let ?k = "''P'' @ arch @ '' '' @ name @ '' '' @ version"
  let ?q = "PkgQuery name version arch"
  have match_key: "Matches x ?q (snd e) = Inr True \<longleftrightarrow> fst e = ?k" if "e \<in> set L" for e
  proof -
    from that assms(2) have "plain_package (snd e)" by blast
    from Key_eq_iff [OF this assms(3,4), of version]
    have "Matches x ?q (snd e) = Inr True \<longleftrightarrow> Key (snd e) = ?k" by simp
    moreover from that assms(1) have "fst e = Key (snd e)" unfolding wf_list_def by blast
    ultimately show ?thesis by simp
  qed
  from assms(1) have dist: "distinct (map fst L)" unfolding wf_list_def by blast
  show ?thesis
  proof (cases "map_of L ?k")
    case None
    then have nk: "?k \<notin> fst ` set L" by (metis map_of_eq_None_iff)
    have "Matches x ?q (snd e) \<noteq> Inr True" if "e \<in> set L" for e
      using match_key [OF that] nk that by (metis image_eqI)
    then have "selects x ?q L []" unfolding selects_def by simp
    with None show ?thesis by (simp only: option.case)
  next
    case (Some pkg)
    then have in_L: "(?k, pkg) \<in> set L" by (rule map_of_SomeD)
    with assms(1) have k: "Key pkg = ?k" unfolding wf_list_def by fastforce
    from match_key [OF in_L] have m: "Matches x ?q pkg = Inr True"
      by (simp only: fst_conv snd_conv)
    have only: "e = (?k, pkg)" if "e \<in> set L" "Matches x ?q (snd e) = Inr True" for e
    proof -
      from that match_key have "fst e = ?k" by blast
      then have "fst e = fst (?k, pkg)" by (simp only: fst_conv)
      from same_key_same_entry [OF dist that(1) in_L this] show ?thesis .
    qed
    have "set [(?k, pkg)] \<subseteq> set L" using in_L by simp
    moreover have "\<forall>e\<in>set [(?k, pkg)]. \<forall>b. Matches x ?q (snd e) = Inr b \<longrightarrow> b"
      using m by (simp del: Matches.simps)
    moreover have "\<forall>e\<in>set L. Matches x ?q (snd e) = Inr True \<longrightarrow> e \<in> set [(?k, pkg)]"
      using only by (metis list.set_intros(1))
    ultimately have "selects x ?q L [(?k, pkg)]"
      unfolding selects_def by blast
    with Some k show ?thesis by (simp only: option.case)
  qed
qed


lemma Query_content:
  assumes wf: "wf_list L" and plain: "\<forall>e\<in>set L. plain_package (snd e)"
  shows "plain_query q \<Longrightarrow> Query x q l h = (Inr r, h') \<Longrightarrow> l < length h \<Longrightarrow> h ! l = L
         \<Longrightarrow> selects x q L (h' ! r)"
proof (induction q arbitrary: h r h')
  case (OrQuery a b)
  show ?case
  proof (cases "Fast a \<and> Fast b")
    case False
    from OrQuery.prems(2) have "Scan x l (OrQuery a b) h = (Inr r, h')"
      unfolding Query_Or_slow [OF False] .
    from Scan_selects [OF this OrQuery.prems(3) wf OrQuery.prems(4)] show ?thesis .
  next
    case True
    then have fa: "Fast a" and fb: "Fast b" by simp_all
    obtain o1 h1 where q1: "Query x a l h = (o1, h1)" by (cases "Query x a l h") auto
    from OrQuery.prems(2) q1 obtain result where o1: "o1 = Inr result"
      unfolding Query_Or_fast [OF fa fb] by (cases o1) auto
    obtain o2 h2 where q2: "Query x b l h1 = (o2, h2)" by (cases "Query x b l h1") auto
    from OrQuery.prems(2) q1 o1 q2 obtain other where o2: "o2 = Inr other"
      unfolding Query_Or_fast [OF fa fb] by (cases o2) auto
    from OrQuery.prems(2) q1 o1 q2 o2 have r: "r = result" and h': "h' = Append result other h2"
      unfolding Query_Or_fast [OF fa fb] by auto
    note f1 = Query_frame [OF q1] and f2 = Query_frame [OF q2]
    from f1 OrQuery.prems(3,4) have l1: "l < length h1" "h1 ! l = L"
      by (auto simp: nth_of_prefix)
    from q1 o1 OrQuery.IH(1) OrQuery.prems have s1: "selects x a L (h1 ! result)" by simp
    from q2 o2 OrQuery.IH(2) l1 OrQuery.prems(1) have s2: "selects x b L (h2 ! other)" by simp
    from f1 o1 have rb: "result < length h1" by simp
    with f2 have same: "h2 ! result = h1 ! result" by (simp add: nth_of_prefix)
    from f2 o2 rb have ob: "other < length h2" "result < length h2" by auto
    with h' have "h' ! result = foldl add_entry (h2 ! result) (h2 ! other)"
      by (simp add: Append_def)
    with selects_Or [OF wf s1 s2] same r show ?thesis by simp
  qed
next
  case (AndQuery a b)
  show ?case
  proof (cases "Fast a")
    case True
    obtain o1 h1 where q1: "Query x a l h = (o1, h1)" by (cases "Query x a l h") auto
    from AndQuery.prems(2) q1 obtain result where o1: "o1 = Inr result"
      unfolding Query_And_left [OF True] by (cases o1) auto
    with AndQuery.prems(2) q1 have sc: "Scan x result b h1 = (Inr r, h')"
      unfolding Query_And_left [OF True] by simp
    from q1 o1 AndQuery.IH(1) AndQuery.prems have s1: "selects x a L (h1 ! result)" by simp
    from Query_frame [OF q1] o1 have "result < length h1" by simp
    from Scan_selects_And [OF sc this wf s1] show ?thesis by simp
  next
    case fa: False
    show ?thesis
    proof (cases "Fast b")
      case False
      from AndQuery.prems(2) have "Scan x l (AndQuery a b) h = (Inr r, h')"
        unfolding Query_And_slow [OF fa False] .
      from Scan_selects [OF this AndQuery.prems(3) wf AndQuery.prems(4)] show ?thesis .
    next
      case True
      obtain o1 h1 where q1: "Query x b l h = (o1, h1)" by (cases "Query x b l h") auto
      from AndQuery.prems(2) q1 obtain result where o1: "o1 = Inr result"
        unfolding Query_And_right [OF fa True] by (cases o1) auto
      with AndQuery.prems(2) q1 have sc: "Scan x result a h1 = (Inr r, h')"
        unfolding Query_And_right [OF fa True] by simp
      from q1 o1 AndQuery.IH(2) AndQuery.prems have s1: "selects x b L (h1 ! result)" by simp
      from Query_frame [OF q1] o1 have "result < length h1" by simp
      from Scan_selects_And [OF sc this wf s1] show ?thesis by simp
    qed
  qed
next
  case (NotQuery q)
  then have "Scan x l (NotQuery q) h = (Inr r, h')" by simp
  from Scan_selects [OF this NotQuery.prems(3) wf NotQuery.prems(4)] show ?case .
next
  case (FieldQuery f rel v)
  then have "Scan x l (FieldQuery f rel v) h = (Inr r, h')" by simp
  from Scan_selects [OF this FieldQuery.prems(3) wf FieldQuery.prems(4)] show ?case .
next
  case (PkgQuery n v a)
  let ?k = "''P'' @ a @ '' '' @ n @ '' '' @ v"
  from PkgQuery.prems(3,4) have d: "deref (h @ [[]]) l = Inr L" by (simp add: deref_def nth_append)
  with PkgQuery.prems(2)
  have "h' ! r = (case map_of L ?k of None \<Rightarrow> [] | Some pkg \<Rightarrow> [(Key pkg, pkg)])"
    by (auto simp: NewPackageList_def Add_def add_entry_def split: option.splits)
  with PkgQuery_selects [OF wf plain, of a n x v] PkgQuery.prems(1) show ?case by simp
next
  case (DependencyQuery d)
  from DependencyQuery.prems(3,4) have dr: "deref (h @ [[]]) l = Inr L"
    by (simp add: deref_def nth_append)
  with DependencyQuery.prems(2) obtain found where
    s: "search_loop x d L = Inr found" and r: "r = length h"
    and h': "h' = fold (Add (length h)) found (h @ [[]])"
    by (auto simp: NewPackageList_def Search_def split: sum.splits)
  from h' r have "h' ! r = foldl add_entry [] (map (\<lambda>p. (Key p, p)) found)"
    by (simp add: fold_Add)
  with DependencyQuery_selects [OF wf s] show ?case by simp
qed

lemma never_panics_Matches: "never_panics x q p \<Longrightarrow> \<exists>b. Matches x q p = Inr b"
  by (induction q) (auto split: sum.splits)

lemma packages_add_entry: "snd ` set (add_entry acc e) \<subseteq> insert (snd e) (snd ` set acc)"
  by (auto simp: add_entry_def)

lemma packages_foldl_add_entry:
  "snd ` set (foldl add_entry acc es) \<subseteq> snd ` set acc \<union> snd ` set es"
proof (induction es arbitrary: acc)
  case Nil
  then show ?case by simp
next
  case (Cons e es)
  from Cons.IH [of "add_entry acc e"] packages_add_entry [of acc e] show ?case by auto
qed

lemma Scan_packages:
  assumes "Scan x l q h = (Inr r, h')" "l < length h"
  shows "snd ` set (h' ! r) \<subseteq> snd ` set (h ! l)"
proof -
  let ?h1 = "h @ [[]]"
  from assms(2) have d: "deref ?h1 l = Inr (h ! l)" by (simp add: deref_def nth_append)
  with assms(1) have sl: "scan_loop x q (h ! l) (length h) ?h1 = (None, h')" and r: "r = length h"
    by (auto simp: Scan_def NewPackageList_def split: prod.splits option.splits)
  let ?es = "map (\<lambda>e. (Key (snd e), snd e)) (filter (\<lambda>e. Matches x q (snd e) = Inr True) (h ! l))"
  from scan_loop_None [OF sl] have "h' = ?h1[length h := foldl add_entry [] ?es]" by simp
  with r have "h' ! r = foldl add_entry [] ?es" by simp
  moreover have "snd ` set ?es \<subseteq> snd ` set (h ! l)" by force
  ultimately show ?thesis using packages_foldl_add_entry [of "[]" ?es] by auto
qed

lemma Query_packages:
  "Query x q l h = (Inr r, h') \<Longrightarrow> l < length h \<Longrightarrow> snd ` set (h' ! r) \<subseteq> snd ` set (h ! l)"
proof (induction q arbitrary: h r h')
  case (OrQuery a b)
  show ?case
  proof (cases "Fast a \<and> Fast b")
    case False
    from OrQuery.prems(1) have "Scan x l (OrQuery a b) h = (Inr r, h')"
      unfolding Query_Or_slow [OF False] .
    from Scan_packages [OF this OrQuery.prems(2)] show ?thesis .
  next
    case True
    then have fa: "Fast a" and fb: "Fast b" by simp_all
    obtain o1 h1 where q1: "Query x a l h = (o1, h1)" by (cases "Query x a l h") auto
    from OrQuery.prems(1) q1 obtain result where o1: "o1 = Inr result"
      unfolding Query_Or_fast [OF fa fb] by (cases o1) auto
    obtain o2 h2 where q2: "Query x b l h1 = (o2, h2)" by (cases "Query x b l h1") auto
    from OrQuery.prems(1) q1 o1 q2 obtain other where o2: "o2 = Inr other"
      unfolding Query_Or_fast [OF fa fb] by (cases o2) auto
    from OrQuery.prems(1) q1 o1 q2 o2 have r: "r = result" and h': "h' = Append result other h2"
      unfolding Query_Or_fast [OF fa fb] by auto
    note f1 = Query_frame [OF q1] and f2 = Query_frame [OF q2]
    from f1 OrQuery.prems(2) have l1: "l < length h1" "h1 ! l = h ! l"
      by (auto simp: nth_of_prefix)
    from OrQuery.IH(1) [of h result h1] q1 o1 OrQuery.prems(2)
    have s1: "snd ` set (h1 ! result) \<subseteq> snd ` set (h ! l)" by simp
    from OrQuery.IH(2) [of h1 other h2] q2 o2 l1
    have s2: "snd ` set (h2 ! other) \<subseteq> snd ` set (h ! l)" by simp
    from f1 o1 have rb: "result < length h1" by simp
    with f2 have same: "h2 ! result = h1 ! result" by (simp add: nth_of_prefix)
    from f2 o2 rb have ob: "other < length h2" "result < length h2" by auto
    with h' have "h' ! result = foldl add_entry (h2 ! result) (h2 ! other)"
      by (simp add: Append_def)
    then have "snd ` set (h' ! r) = snd ` set (foldl add_entry (h2 ! result) (h2 ! other))"
      unfolding r by (rule arg_cong)
    also have "\<dots> \<subseteq> snd ` set (h2 ! result) \<union> snd ` set (h2 ! other)"
      by (rule packages_foldl_add_entry)
    also have "\<dots> \<subseteq> snd ` set (h ! l)"
      using s1 s2 unfolding same by blast
    finally show ?thesis .
  qed
next
  case (AndQuery a b)
  show ?case
  proof (cases "Fast a")
    case True
    obtain o1 h1 where q1: "Query x a l h = (o1, h1)" by (cases "Query x a l h") auto
    from AndQuery.prems(1) q1 obtain result where o1: "o1 = Inr result"
      unfolding Query_And_left [OF True] by (cases o1) auto
    with AndQuery.prems(1) q1 have sc: "Scan x result b h1 = (Inr r, h')"
      unfolding Query_And_left [OF True] by simp
    from AndQuery.IH(1) [of h result h1] q1 o1 AndQuery.prems(2)
    have s1: "snd ` set (h1 ! result) \<subseteq> snd ` set (h ! l)" by simp
    from Query_frame [OF q1] o1 have "result < length h1" by simp
    from Scan_packages [OF sc this] s1 show ?thesis by auto
  next
    case fa: False
    show ?thesis
    proof (cases "Fast b")
      case False
      from AndQuery.prems(1) have "Scan x l (AndQuery a b) h = (Inr r, h')"
        unfolding Query_And_slow [OF fa False] .
      from Scan_packages [OF this AndQuery.prems(2)] show ?thesis .
    next
      case True
      obtain o1 h1 where q1: "Query x b l h = (o1, h1)" by (cases "Query x b l h") auto
      from AndQuery.prems(1) q1 obtain result where o1: "o1 = Inr result"
        unfolding Query_And_right [OF fa True] by (cases o1) auto
      with AndQuery.prems(1) q1 have sc: "Scan x result a h1 = (Inr r, h')"
        unfolding Query_And_right [OF fa True] by simp
      from AndQuery.IH(2) [of h result h1] q1 o1 AndQuery.prems(2)
      have s1: "snd ` set (h1 ! result) \<subseteq> snd ` set (h ! l)" by simp
      from Query_frame [OF q1] o1 have "result < length h1" by simp
      from Scan_packages [OF sc this] s1 show ?thesis by auto
    qed
  qed
next
  case (NotQuery q)
  then have "Scan x l (NotQuery q) h = (Inr r, h')" by simp
  from Scan_packages [OF this NotQuery.prems(2)] show ?case .
next
  case (FieldQuery f rel v)
  then have "Scan x l (FieldQuery f rel v) h = (Inr r, h')" by simp
  from Scan_packages [OF this FieldQuery.prems(2)] show ?case .
next
  case (PkgQuery n v a)
  from PkgQuery.prems(2) have d: "deref (h @ [[]]) l = Inr (h ! l)"
    by (simp add: deref_def nth_append)
  let ?k = "''P'' @ a @ '' '' @ n @ '' '' @ v"
  show ?case
  proof (cases "map_of (h ! l) ?k")
    case None
    with d PkgQuery.prems(1) have "h' ! r = []" by (auto simp: NewPackageList_def)
    then show ?thesis by simp
  next
    case (Some pkg)
    with d PkgQuery.prems(1) have "h' ! r = [(Key pkg, pkg)]"
      by (auto simp: NewPackageList_def Add_def add_entry_def)
    moreover from Some have "(?k, pkg) \<in> set (h ! l)" by (rule map_of_SomeD)
    then have "pkg \<in> snd ` set (h ! l)" by force
    ultimately show ?thesis by simp
  qed
next
  case (DependencyQuery d)
  from DependencyQuery.prems(2) have dr: "deref (h @ [[]]) l = Inr (h ! l)"
    by (simp add: deref_def nth_append)
  with DependencyQuery.prems(1) obtain found where
    s: "search_loop x d (h ! l) = Inr found" and r: "r = length h"
    and h': "h' = fold (Add (length h)) found (h @ [[]])"
    by (auto simp: NewPackageList_def Search_def split: sum.splits)
  from h' r have "h' ! r = foldl add_entry [] (map (\<lambda>p. (Key p, p)) found)"
    by (simp add: fold_Add)
  moreover from search_loop_Inr [OF s] have "set found \<subseteq> snd ` set (h ! l)" by auto
  moreover have "snd ` set (map (\<lambda>p. (Key p, p)) found) = set found" by force
  ultimately show ?case
    using packages_foldl_add_entry [of "[]" "map (\<lambda>p. (Key p, p)) found"] by auto
qed

lemma Query_total:
  "l < length h \<Longrightarrow> h ! l = L \<Longrightarrow> \<forall>e\<in>set L. never_panics x q (snd e)
     \<Longrightarrow> \<exists>r h'. Query x q l h = (Inr r, h')"
proof (induction q arbitrary: h)
  case (OrQuery a b)
  show ?case
  proof (cases "Fast a \<and> Fast b")
    case False
    from OrQuery.prems(3) have "\<forall>e\<in>set (h ! l). \<exists>v. Matches x (OrQuery a b) (snd e) = Inr v"
      unfolding OrQuery.prems(2) using never_panics_Matches by blast
    from Scan_total [OF OrQuery.prems(1) this] show ?thesis
      unfolding Query_Or_slow [OF False] by blast
  next
    case True
    then have fa: "Fast a" and fb: "Fast b" by simp_all
    from OrQuery.prems have "\<exists>r h'. Query x a l h = (Inr r, h')"
      by (intro OrQuery.IH(1)) auto
    then obtain result h1 where q1: "Query x a l h = (Inr result, h1)" by blast
    from Query_frame [OF q1] OrQuery.prems(1,2) have l1: "l < length h1" "h1 ! l = L"
      by (auto simp: nth_of_prefix)
    from OrQuery.prems l1 have "\<exists>r h'. Query x b l h1 = (Inr r, h')"
      by (intro OrQuery.IH(2)) auto
    then obtain other h2 where q2: "Query x b l h1 = (Inr other, h2)" by blast
    from q1 q2 show ?thesis unfolding Query_Or_fast [OF fa fb] by simp
  qed
next
  case (AndQuery a b)
  show ?case
  proof (cases "Fast a")
    case True
    from AndQuery.prems have "\<exists>r h'. Query x a l h = (Inr r, h')"
      by (intro AndQuery.IH(1)) auto
    then obtain result h1 where q1: "Query x a l h = (Inr result, h1)" by blast
    from Query_packages [OF q1 AndQuery.prems(1)] AndQuery.prems(2)
    have sub: "snd ` set (h1 ! result) \<subseteq> snd ` set L" by simp
    from Query_frame [OF q1] have rb: "result < length h1" by simp
    have "\<forall>e\<in>set (h1 ! result). \<exists>v. Matches x b (snd e) = Inr v"
    proof
      fix e assume "e \<in> set (h1 ! result)"
      with sub have "snd e \<in> snd ` set L" by blast
      then obtain e' where e': "e' \<in> set L" "snd e' = snd e" by force
      from AndQuery.prems(3) e'(1) have "never_panics x (AndQuery a b) (snd e')" by (rule bspec)
      then have "never_panics x b (snd e)" unfolding e'(2) by simp
      then show "\<exists>v. Matches x b (snd e) = Inr v" by (rule never_panics_Matches)
    qed
    from Scan_total [OF rb this] q1 show ?thesis
      unfolding Query_And_left [OF True] by auto
  next
    case fa: False
    show ?thesis
    proof (cases "Fast b")
      case False
      from AndQuery.prems(3) have "\<forall>e\<in>set (h ! l). \<exists>v. Matches x (AndQuery a b) (snd e) = Inr v"
        unfolding AndQuery.prems(2) using never_panics_Matches by blast
      from Scan_total [OF AndQuery.prems(1) this] show ?thesis
        unfolding Query_And_slow [OF fa False] by blast
    next
      case True
      from AndQuery.prems have "\<exists>r h'. Query x b l h = (Inr r, h')"
        by (intro AndQuery.IH(2)) auto
      then obtain result h1 where q1: "Query x b l h = (Inr result, h1)" by blast
      from Query_packages [OF q1 AndQuery.prems(1)] AndQuery.prems(2)
      have sub: "snd ` set (h1 ! result) \<subseteq> snd ` set L" by simp
      from Query_frame [OF q1] have rb: "result < length h1" by simp
      have "\<forall>e\<in>set (h1 ! result). \<exists>v. Matches x a (snd e) = Inr v"
      proof
      fix e assume "e \<in> set (h1 ! result)"
      with sub have "snd e \<in> snd ` set L" by blast
      then obtain e' where e': "e' \<in> set L" "snd e' = snd e" by force
      from AndQuery.prems(3) e'(1) have "never_panics x (AndQuery a b) (snd e')" by (rule bspec)
      then have "never_panics x a (snd e)" unfolding e'(2) by simp
      then show "\<exists>v. Matches x a (snd e) = Inr v" by (rule never_panics_Matches)
    qed
      from Scan_total [OF rb this] q1 show ?thesis
        unfolding Query_And_right [OF fa True] by auto
    qed
  qed
next
  case (NotQuery q)
  from NotQuery.prems(3) have "\<forall>e\<in>set (h ! l). \<exists>v. Matches x (NotQuery q) (snd e) = Inr v"
    unfolding NotQuery.prems(2) using never_panics_Matches by blast
  from Scan_total [OF NotQuery.prems(1) this] show ?case by (auto simp del: Matches.simps)
next
  case (FieldQuery f rel v)
  from FieldQuery.prems(3)
  have "\<forall>e\<in>set (h ! l). \<exists>b. Matches x (FieldQuery f rel v) (snd e) = Inr b"
    unfolding FieldQuery.prems(2) using never_panics_Matches by blast
  from Scan_total [OF FieldQuery.prems(1) this] show ?case by (auto simp del: Matches.simps)
next
  case (PkgQuery n v a)
  from PkgQuery.prems(1) have "deref (h @ [[]]) l = Inr (h ! l)"
    by (simp add: deref_def nth_append)
  then show ?case by (simp add: NewPackageList_def split: option.splits)
next
  case (DependencyQuery d)
  from DependencyQuery.prems(1) have dr: "deref (h @ [[]]) l = Inr (h ! l)"
    by (simp add: deref_def nth_append)
  from DependencyQuery.prems(3)
  have "\<forall>e\<in>set (h ! l). \<exists>b. MatchesDependency x (snd e) d = Inr b"
    unfolding DependencyQuery.prems(2) using never_panics_Matches by fastforce
  from search_loop_total [OF this] obtain found where "search_loop x d (h ! l) = Inr found"
    by blast
  with dr show ?case by (simp add: NewPackageList_def Search_def)
qed

lemma Scan_aborts:
  assumes "list < length h" "h ! list = (k, pkg) # rest" "Matches x Q pkg = Inl err"
  shows "fst (Scan x list Q h) = Inl err"
proof -
  from assms(1,2) have "deref (h @ [[]]) list = Inr ((k, pkg) # rest)"
    by (simp add: deref_def nth_append)
  with assms(3) show ?thesis by (simp add: Scan_def NewPackageList_def)
qed

subsection \<open>The claims\<close>

text \<open>
  C2. \<^verbatim>\<open>Or(A,B).Fast()\<close> is \<^verbatim>\<open>A.Fast() && B.Fast()\<close>, \<^verbatim>\<open>And(A,B).Fast()\<close> is
  \<^verbatim>\<open>A.Fast() || B.Fast()\<close>, \<^verbatim>\<open>Not(Q).Fast()\<close> is false for every \<open>Q\<close>, a Field
  query is never fast, a Dependency query and a Pkg query are always fast.
\<close>

theorem Fast_truth_table:
  "Fast (OrQuery A B) = (Fast A \<and> Fast B)
   \<and> Fast (AndQuery A B) = (Fast A \<or> Fast B)
   \<and> Fast (NotQuery Q) = False
   \<and> Fast (FieldQuery fld rel val) = False
   \<and> Fast (DependencyQuery dep) = True
   \<and> Fast (PkgQuery name version arch) = True"
  by simp

text \<open>
  C3. For all nodes \<open>A\<close>, \<open>B\<close> and every package \<open>p\<close>: \<^verbatim>\<open>And(A,B).Matches(p)\<close> is
  \<^verbatim>\<open>A.Matches(p) && B.Matches(p)\<close>, \<^verbatim>\<open>Or(A,B).Matches(p)\<close> is
  \<^verbatim>\<open>A.Matches(p) || B.Matches(p)\<close>, \<^verbatim>\<open>Not(A).Matches(p)\<close> is \<^verbatim>\<open>!A.Matches(p)\<close>;
  on boolean outcomes these are conjunction, disjunction and negation.
\<close>

theorem Matches_connectives:
  "Matches x (AndQuery A B) p = go_and (Matches x A p) (Matches x B p)
   \<and> Matches x (OrQuery A B) p = go_or (Matches x A p) (Matches x B p)
   \<and> Matches x (NotQuery A) p = go_not (Matches x A p)
   \<and> go_and (Inr a) (Inr b) = Inr (a \<and> b)
   \<and> go_or (Inr a) (Inr b) = Inr (a \<or> b)
   \<and> go_not (Inr a) = Inr (\<not> a)"
  by (simp add: go_and_def go_or_def go_not_def split: sum.splits bool.splits)

text \<open>
  C1 (as amended). For every query tree and every well-formed list whose keys are
  unambiguous (architectures and names without spaces, in the list and in the Pkg nodes
  of the query): whenever \<^verbatim>\<open>q.Query(L)\<close> and the linear scan with \<^verbatim>\<open>q.Matches\<close>
  both return, they return the same set of packages, whichever of the fast and slow
  paths is taken; and both do return when no evaluation of \<^verbatim>\<open>Matches\<close> on a
  package of the list panics.
\<close>

theorem Query_agrees_with_Scan:
  assumes "list < length h" and "wf_list (h ! list)"
    and "\<forall>e\<in>set (h ! list). plain_package (snd e)" and "plain_query q"
  shows "(\<forall>r h1 s h2. Query x q list h = (Inr r, h1) \<and> Scan x list q h = (Inr s, h2)
            \<longrightarrow> set (h1 ! r) = set (h2 ! s))
       \<and> ((\<forall>e\<in>set (h ! list). never_panics x q (snd e))
            \<longrightarrow> (\<exists>r h1 s h2. Query x q list h = (Inr r, h1) \<and> Scan x list q h = (Inr s, h2)
                   \<and> set (h1 ! r) = set (h2 ! s)))"
proof -
  let ?L = "h ! list"
  have agree: "set (h1 ! r) = set (h2 ! s)"
    if q: "Query x q list h = (Inr r, h1)" and s: "Scan x list q h = (Inr s, h2)" for r h1 s h2
  proof -
    from Query_content [OF assms(2,3,4) q assms(1)] have sel: "selects x q ?L (h1 ! r)" by simp
    from Scan_content [OF s assms(1,2)]
    have sc: "set (h2 ! s) = {e \<in> set ?L. Matches x q (snd e) = Inr True}"
      and tot: "\<forall>e\<in>set ?L. \<exists>b. Matches x q (snd e) = Inr b" by simp_all
    from sel have sub: "set (h1 ! r) \<subseteq> set ?L"
      and i: "\<And>e b. e \<in> set (h1 ! r) \<Longrightarrow> Matches x q (snd e) = Inr b \<Longrightarrow> b"
      and ii: "\<And>e. e \<in> set ?L \<Longrightarrow> Matches x q (snd e) = Inr True \<Longrightarrow> e \<in> set (h1 ! r)"
      unfolding selects_def by blast+
    show ?thesis
    proof
      show "set (h1 ! r) \<subseteq> set (h2 ! s)"
      proof
        fix e assume e: "e \<in> set (h1 ! r)"
        with sub have eL: "e \<in> set ?L" by blast
        with tot obtain b where b: "Matches x q (snd e) = Inr b" by blast
        from i [OF e b] b eL sc show "e \<in> set (h2 ! s)" by simp
      qed
      show "set (h2 ! s) \<subseteq> set (h1 ! r)" using sc ii by blast
    qed
  qed
  have total: "\<exists>r h1 s h2. Query x q list h = (Inr r, h1) \<and> Scan x list q h = (Inr s, h2)
                 \<and> set (h1 ! r) = set (h2 ! s)"
    if np: "\<forall>e\<in>set ?L. never_panics x q (snd e)"
  proof -
    from Query_total [OF assms(1) refl np] obtain r h1 where q: "Query x q list h = (Inr r, h1)"
      by blast
    from np have "\<forall>e\<in>set ?L. \<exists>b. Matches x q (snd e) = Inr b"
      using never_panics_Matches by blast
    from Scan_total [OF assms(1) this] obtain h2 where s: "Scan x list q h = (Inr (length h), h2)"
      by blast
    from agree [OF q s] q s show ?thesis by blast
  qed
  from agree total show ?thesis by blast
qed

text \<open>
  An instance of C1 as amended: the example query takes the fast path of \<^verbatim>\<open>Or\<close> on
  the example list, and returns the set the scan returns.
\<close>

theorem Query_agrees_with_Scan_witness:
  "\<exists>r h1 s h2.
     Query example_externals example_query 0 [example_list] = (Inr r, h1)
     \<and> Scan example_externals 0 example_query [example_list] = (Inr s, h2)
     \<and> set (h1 ! r) = set (h2 ! s)"
proof -
  have 1: "(0::nat) < length [example_list]" by simp
  have 2: "wf_list ([example_list] ! 0)"
    by (simp add: wf_list_def example_list_def Key_def nginx_def docs_def)
  have 3: "\<forall>e\<in>set ([example_list] ! 0). plain_package (snd e)"
    by (simp add: example_list_def plain_package_def nospace_def nginx_def docs_def)
  have 4: "plain_query example_query"
    by (simp add: example_query_def nospace_def)
  have 5: "\<forall>e\<in>set ([example_list] ! 0). never_panics example_externals example_query (snd e)"
    by (simp add: example_list_def example_query_def example_externals_def nginx_def docs_def
        FieldQuery_Matches_def)
  from Query_agrees_with_Scan [OF 1 2 3 4, of example_externals] 5 show ?thesis by blast
qed

text \<open>
  C1 as stated fails. On a well-formed list whose only package has the architecture
  \<^verbatim>\<open>amd64 dev\<close> and the name \<^verbatim>\<open>tools\<close>, the Pkg query for the name
  \<^verbatim>\<open>dev tools\<close> and the architecture \<^verbatim>\<open>amd64\<close> builds the key of that package:
  \<^verbatim>\<open>Query\<close> returns the package, the scan returns nothing. And on the example list
  the query \<^verbatim>\<open>And(Field regexp, Pkg absent)\<close> returns the empty list on the fast path,
  while the scan panics on the first package.
\<close>

theorem Query_differs_from_Scan_counterexample:
  "wf_list odd_list
   \<and> Query example_externals (PkgQuery ''dev tools'' ''1.0'' ''amd64'') 0 [odd_list]
       = (Inr 1, [odd_list, odd_list])
   \<and> Scan example_externals 0 (PkgQuery ''dev tools'' ''1.0'' ''amd64'') [odd_list]
       = (Inr 1, [odd_list, []])
   \<and> wf_list example_list
   \<and> Query example_externals
        (AndQuery (FieldQuery ''Section'' VersionRegexp ''w.*'') (PkgQuery ''absent'' ''1.0'' ''amd64''))
        0 [example_list]
       = (Inr 2, [example_list, [], []])
   \<and> Scan example_externals 0
        (AndQuery (FieldQuery ''Section'' VersionRegexp ''w.*'') (PkgQuery ''absent'' ''1.0'' ''amd64''))
        [example_list]
       = (Inl (Panic ''regexp matching not implemented yet''), [example_list, []])"
  by (simp add: wf_list_def odd_list_def odd_package_def example_list_def nginx_def docs_def
      Key_def Scan_def NewPackageList_def deref_def Add_def add_entry_def
      example_externals_def FieldQuery_Matches_def)

text \<open>
  C8. For every query node, every list pointer and every heap: \<^verbatim>\<open>Query\<close> leaves every
  list of the heap as it was (the list it queries included: same keys, same packages),
  a result it returns is a pointer that was not allocated before, and it does return one
  when no evaluation of \<^verbatim>\<open>Matches\<close> on a package of the list panics.
\<close>

theorem Query_result_is_fresh:
  "take (length h) (snd (Query x q list h)) = h
   \<and> (list < length h \<longrightarrow> snd (Query x q list h) ! list = h ! list)
   \<and> (\<forall>r. fst (Query x q list h) = Inr r
          \<longrightarrow> length h \<le> r \<and> r < length (snd (Query x q list h)))
   \<and> (list < length h \<and> (\<forall>e\<in>set (h ! list). never_panics x q (snd e))
          \<longrightarrow> (\<exists>r. fst (Query x q list h) = Inr r))"
proof -
  obtain res h' where q: "Query x q list h = (res, h')" by (cases "Query x q list h") auto
  note f = Query_frame [OF q]
  from f have 1: "take (length h) h' = h" by simp
  then have 2: "list < length h \<longrightarrow> h' ! list = h ! list" by (simp add: nth_of_prefix)
  from f have 3: "\<forall>r. res = Inr r \<longrightarrow> length h \<le> r \<and> r < length h'" by simp
  have 4: "\<exists>r. res = Inr r"
    if "list < length h \<and> (\<forall>e\<in>set (h ! list). never_panics x q (snd e))"
    using Query_total [of list h "h ! list" x q] that q by auto
  from 1 2 3 4 show ?thesis unfolding q fst_conv snd_conv by blast
qed

theorem Query_result_is_fresh_witness:
  "(0::nat) < length [example_list]
   \<and> never_panics example_externals example_query nginx
   \<and> never_panics example_externals example_query docs
   \<and> take 1 (snd (Query example_externals example_query 0 [example_list])) = [example_list]
   \<and> snd (Query example_externals example_query 0 [example_list]) ! 0 = example_list
   \<and> (\<exists>r. fst (Query example_externals example_query 0 [example_list]) = Inr r
          \<and> 1 \<le> r \<and> r < length (snd (Query example_externals example_query 0 [example_list])))"
proof -
  have 1: "(0::nat) < length [example_list]" by simp
  have 2: "\<forall>e\<in>set ([example_list] ! 0). never_panics example_externals example_query (snd e)"
    by (simp add: example_list_def example_query_def example_externals_def nginx_def docs_def
        FieldQuery_Matches_def)
  from 2 have 3: "never_panics example_externals example_query nginx"
    "never_panics example_externals example_query docs"
    by (simp_all add: example_list_def)
  from Query_result_is_fresh [of "[example_list]" example_externals example_query 0] 1 2
  have "take 1 (snd (Query example_externals example_query 0 [example_list])) = [example_list]
   \<and> snd (Query example_externals example_query 0 [example_list]) ! 0 = example_list
   \<and> (\<exists>r. fst (Query example_externals example_query 0 [example_list]) = Inr r
          \<and> 1 \<le> r \<and> r < length (snd (Query example_externals example_query 0 [example_list])))"
    by auto
  with 1 3 show ?thesis by blast
qed

text \<open>
  C9 (as amended). \<^verbatim>\<open>Pkg(name, version, arch).Matches(p)\<close> holds exactly when name,
  version and architecture of \<open>p\<close> are equal to those of the query; a package of
  architecture \<^verbatim>\<open>all\<close> does not match a Pkg query that names another architecture;
  and on a well-formed list, when no architecture and no name (of the query or of a
  package of the list) contains a space, \<^verbatim>\<open>Pkg.Query\<close> returns exactly the packages of
  the list with that triple.
\<close>

theorem PkgQuery_exact_triple:
  "(Matches x (PkgQuery name version arch) p = Inr True
      \<longleftrightarrow> Name p = name \<and> Package.Version p = version \<and> Architecture p = arch)
   \<and> (Architecture p = ''all'' \<and> arch \<noteq> ''all''
        \<longrightarrow> Matches x (PkgQuery name version arch) p = Inr False)
   \<and> (list < length h \<and> wf_list (h ! list) \<and> (\<forall>e\<in>set (h ! list). plain_package (snd e))
        \<and> nospace arch \<and> nospace name
        \<longrightarrow> (\<exists>r h'. Query x (PkgQuery name version arch) list h = (Inr r, h')
              \<and> set (h' ! r) = {e \<in> set (h ! list).
                    Name (snd e) = name \<and> Package.Version (snd e) = version
                    \<and> Architecture (snd e) = arch}))"
proof -
  let ?q = "PkgQuery name version arch"
  have m: "Matches x ?q p' = Inr (Name p' = name \<and> Package.Version p' = version \<and> Architecture p' = arch)"
    for p' by simp
  have 3: "\<exists>r h'. Query x ?q list h = (Inr r, h')
              \<and> set (h' ! r) = {e \<in> set (h ! list).
                    Name (snd e) = name \<and> Package.Version (snd e) = version
                    \<and> Architecture (snd e) = arch}"
    if a: "list < length h" "wf_list (h ! list)" "\<forall>e\<in>set (h ! list). plain_package (snd e)"
      "nospace arch" "nospace name"
  proof -
    have "\<forall>e\<in>set (h ! list). never_panics x ?q (snd e)" by simp
    from Query_total [OF a(1) refl this] obtain r h' where q: "Query x ?q list h = (Inr r, h')"
      by blast
    from a(4,5) have "plain_query ?q" by simp
    from Query_content [OF a(2,3) this q a(1) refl]
    have sub: "set (h' ! r) \<subseteq> set (h ! list)"
      and i: "\<And>e b. e \<in> set (h' ! r) \<Longrightarrow> Matches x ?q (snd e) = Inr b \<Longrightarrow> b"
      and ii: "\<And>e. e \<in> set (h ! list) \<Longrightarrow> Matches x ?q (snd e) = Inr True \<Longrightarrow> e \<in> set (h' ! r)"
      unfolding selects_def by blast+
    have "set (h' ! r) = {e \<in> set (h ! list).
            Name (snd e) = name \<and> Package.Version (snd e) = version \<and> Architecture (snd e) = arch}"
    proof (intro set_eqI iffI)
      fix e assume e: "e \<in> set (h' ! r)"
      from i [OF e m] sub e
      show "e \<in> {e \<in> set (h ! list).
            Name (snd e) = name \<and> Package.Version (snd e) = version \<and> Architecture (snd e) = arch}"
        by blast
    next
      fix e assume "e \<in> {e \<in> set (h ! list).
            Name (snd e) = name \<and> Package.Version (snd e) = version \<and> Architecture (snd e) = arch}"
      then have "e \<in> set (h ! list)" "Matches x ?q (snd e) = Inr True" by simp_all
      then show "e \<in> set (h' ! r)" by (rule ii)
    qed
    with q show ?thesis by blast
  qed
  have 1: "Matches x ?q p = Inr True
      \<longleftrightarrow> Name p = name \<and> Package.Version p = version \<and> Architecture p = arch" by simp
  have 2: "Architecture p = ''all'' \<and> arch \<noteq> ''all'' \<longrightarrow> Matches x ?q p = Inr False" by auto
  from 1 2 3 show ?thesis by blast
qed

theorem PkgQuery_exact_triple_witness:
  "(0::nat) < length [example_list] \<and> wf_list ([example_list] ! 0)
   \<and> plain_package nginx \<and> plain_package docs
   \<and> nospace ''amd64'' \<and> nospace ''docs''
   \<and> Architecture docs = ''all'' \<and> ''amd64'' \<noteq> ''all''
   \<and> Matches example_externals (PkgQuery ''docs'' ''2.0'' ''amd64'') docs = Inr False
   \<and> (\<exists>r h'. Query example_externals (PkgQuery ''docs'' ''2.0'' ''amd64'') 0 [example_list] = (Inr r, h')
         \<and> set (h' ! r) = {})"
proof -
  have 1: "(0::nat) < length [example_list]" by simp
  have 2: "wf_list ([example_list] ! 0)"
    by (simp add: wf_list_def example_list_def Key_def nginx_def docs_def)
  have 3: "\<forall>e\<in>set ([example_list] ! 0). plain_package (snd e)"
    by (simp add: example_list_def plain_package_def nospace_def nginx_def docs_def)
  have 4: "nospace ''amd64''" "nospace ''docs''" by (simp_all add: nospace_def)
  have 5: "Architecture docs = ''all''" "''amd64'' \<noteq> ''all''" by (simp_all add: docs_def)
  have 6: "{e \<in> set ([example_list] ! 0). Name (snd e) = ''docs'' \<and> Package.Version (snd e) = ''2.0''
             \<and> Architecture (snd e) = ''amd64''} = {}"
    by (auto simp: example_list_def nginx_def docs_def)
  note t = PkgQuery_exact_triple [of example_externals "''docs''" "''2.0''" "''amd64''" docs 0
      "[example_list]"]
  from t 5 have 7: "Matches example_externals (PkgQuery ''docs'' ''2.0'' ''amd64'') docs = Inr False"
    by blast
  from t 1 2 3 4 have "\<exists>r h'. Query example_externals (PkgQuery ''docs'' ''2.0'' ''amd64'') 0
      [example_list] = (Inr r, h')
      \<and> set (h' ! r) = {e \<in> set ([example_list] ! 0). Name (snd e) = ''docs''
            \<and> Package.Version (snd e) = ''2.0'' \<and> Architecture (snd e) = ''amd64''}"
    by blast
  then have 8: "\<exists>r h'. Query example_externals (PkgQuery ''docs'' ''2.0'' ''amd64'') 0
      [example_list] = (Inr r, h') \<and> set (h' ! r) = {}"
    unfolding 6 .
  from 3 have 9: "plain_package nginx" "plain_package docs"
    by (simp_all add: example_list_def)
  from 1 2 9 4 5 7 8 show ?thesis by blast
qed

text \<open>
  C9 as stated fails for the lookup: the key of the triple (\<^verbatim>\<open>amd64\<close>,
  \<^verbatim>\<open>dev tools\<close>, \<^verbatim>\<open>1.0\<close>) is the key of a package whose architecture is
  \<^verbatim>\<open>amd64 dev\<close> and whose name is \<^verbatim>\<open>tools\<close>; \<^verbatim>\<open>Pkg.Query\<close> finds it, and
  \<^verbatim>\<open>Matches\<close> of the same query on it is false.
\<close>

theorem PkgQuery_lookup_counterexample:
  "wf_list odd_list
   \<and> Query example_externals (PkgQuery ''dev tools'' ''1.0'' ''amd64'') 0 [odd_list]
       = (Inr 1, [odd_list, [(''Pamd64 dev tools 1.0'', odd_package)]])
   \<and> Name odd_package = ''tools'' \<and> Architecture odd_package = ''amd64 dev''
   \<and> Matches example_externals (PkgQuery ''dev tools'' ''1.0'' ''amd64'') odd_package = Inr False"
  by (simp add: wf_list_def odd_list_def odd_package_def
      Key_def NewPackageList_def deref_def Add_def add_entry_def)

text \<open>
  C6. \<^verbatim>\<open>FieldQuery.Matches\<close> with the regexp relation panics with the not-implemented
  message, and with a relation outside the known set it panics with the internal
  ``unknown relation'' message; it never returns a boolean. The panic is the outcome of
  every enclosing \<^verbatim>\<open>Not\<close>, \<^verbatim>\<open>And\<close> and \<^verbatim>\<open>Or\<close> that evaluates the field query, and of
  the \<^verbatim>\<open>Query\<close> that scans a list with the package: no result list is returned. For
  the field \<^verbatim>\<open>$Version\<close> query.go hands the relation to \<^verbatim>\<open>MatchesDependency\<close>,
  which is outside the source files; there the statement holds when that method fails
  in the same way.
\<close>

theorem unsupported_relation_aborts:
  assumes "unsupported rel = Some err"
    and "fld = ''$Version'' \<Longrightarrow>
           MatchesDependency x pkg \<lparr>Pkg = Name pkg, Relation = rel, Dependency.Version = val\<rparr>
             = Inl err"
  shows "Matches x (FieldQuery fld rel val) pkg = Inl err
     \<and> Matches x (NotQuery (FieldQuery fld rel val)) pkg = Inl err
     \<and> Matches x (AndQuery (FieldQuery fld rel val) B) pkg = Inl err
     \<and> Matches x (OrQuery (FieldQuery fld rel val) B) pkg = Inl err
     \<and> (Matches x A pkg = Inr True
          \<longrightarrow> Matches x (AndQuery A (FieldQuery fld rel val)) pkg = Inl err)
     \<and> (Matches x A pkg = Inr False
          \<longrightarrow> Matches x (OrQuery A (FieldQuery fld rel val)) pkg = Inl err)
     \<and> (list < length h \<and> h ! list = (k, pkg) # rest
          \<longrightarrow> fst (Query x (FieldQuery fld rel val) list h) = Inl err
              \<and> fst (Query x (NotQuery (FieldQuery fld rel val)) list h) = Inl err)"
proof -
  have m: "Matches x (FieldQuery fld rel val) pkg = Inl err"
  proof (cases "fld = ''$Version''")
    case True
    with assms(2) show ?thesis by (simp add: FieldQuery_Matches_def)
  next
    case False
    from assms(1) have "rel = VersionRegexp \<and> err = Panic ''regexp matching not implemented yet''
        \<or> (\<exists>n. rel = OtherRelation n) \<and> err = Panic ''unknown relation''"
      by (cases rel) (auto simp: unsupported_def)
    with False show ?thesis by (auto simp: FieldQuery_Matches_def)
  qed
  then have n: "Matches x (NotQuery (FieldQuery fld rel val)) pkg = Inl err" by simp
  have s: "fst (Query x (FieldQuery fld rel val) list h) = Inl err
         \<and> fst (Query x (NotQuery (FieldQuery fld rel val)) list h) = Inl err"
    if "list < length h \<and> h ! list = (k, pkg) # rest"
    using that Scan_aborts [OF _ _ m] Scan_aborts [OF _ _ n] by simp
  from m have "Matches x (AndQuery (FieldQuery fld rel val) B) pkg = Inl err"
    "Matches x (OrQuery (FieldQuery fld rel val) B) pkg = Inl err"
    "Matches x A pkg = Inr True \<longrightarrow> Matches x (AndQuery A (FieldQuery fld rel val)) pkg = Inl err"
    "Matches x A pkg = Inr False \<longrightarrow> Matches x (OrQuery A (FieldQuery fld rel val)) pkg = Inl err"
    by simp_all
  with m n s show ?thesis by blast
qed

theorem unsupported_relation_aborts_witness:
  "unsupported VersionRegexp = Some (Panic ''regexp matching not implemented yet'')
   \<and> unsupported (OtherRelation 99) = Some (Panic ''unknown relation'')
   \<and> Matches example_externals (FieldQuery ''Section'' VersionRegexp ''w.*'') nginx
       = Inl (Panic ''regexp matching not implemented yet'')
   \<and> Matches example_externals (FieldQuery ''$Version'' (OtherRelation 99) ''1.0'') nginx
       = Inl (Panic ''unknown relation'')
   \<and> Matches example_externals (PkgQuery ''nginx'' ''1.0'' ''amd64'') nginx = Inr True
   \<and> Matches example_externals
        (AndQuery (PkgQuery ''nginx'' ''1.0'' ''amd64'') (FieldQuery ''Section'' VersionRegexp ''w.*''))
        nginx
       = Inl (Panic ''regexp matching not implemented yet'')
   \<and> fst (Query example_externals (FieldQuery ''Section'' VersionRegexp ''w.*'') 0 [example_list])
       = Inl (Panic ''regexp matching not implemented yet'')"
proof -
  let ?re = "Panic ''regexp matching not implemented yet''" and ?un = "Panic ''unknown relation''"
  have u1: "unsupported VersionRegexp = Some ?re" by (simp add: unsupported_def)
  have u2: "unsupported (OtherRelation 99) = Some ?un" by (simp add: unsupported_def)
  have v1: "''Section'' = ''$Version'' \<Longrightarrow>
      MatchesDependency example_externals nginx
        \<lparr>Pkg = Name nginx, Relation = VersionRegexp, Dependency.Version = ''w.*''\<rparr> = Inl ?re"
    by simp
  have v2: "''$Version'' = ''$Version'' \<Longrightarrow>
      MatchesDependency example_externals nginx
        \<lparr>Pkg = Name nginx, Relation = OtherRelation 99, Dependency.Version = ''1.0''\<rparr> = Inl ?un"
    by (simp add: example_externals_def)
  have a: "Matches example_externals (PkgQuery ''nginx'' ''1.0'' ''amd64'') nginx = Inr True"
    by (simp add: nginx_def)
  have l: "(0::nat) < length [example_list]
      \<and> [example_list] ! 0 = (''Pamd64 nginx 1.0'', nginx) # [(''Pall docs 2.0'', docs)]"
    by (simp add: example_list_def)
  note t1 = unsupported_relation_aborts [OF u1 v1,
      where A = "PkgQuery ''nginx'' ''1.0'' ''amd64''" and list = 0 and h = "[example_list]"
        and k = "''Pamd64 nginx 1.0''" and rest = "[(''Pall docs 2.0'', docs)]"]
  note t2 = unsupported_relation_aborts [OF u2 v2,
      where A = "PkgQuery ''nginx'' ''1.0'' ''amd64''" and list = 0 and h = "[example_list]"
        and k = "''Pamd64 nginx 1.0''" and rest = "[(''Pall docs 2.0'', docs)]"]
  from t1 a l have
    "Matches example_externals (FieldQuery ''Section'' VersionRegexp ''w.*'') nginx = Inl ?re"
    "Matches example_externals
        (AndQuery (PkgQuery ''nginx'' ''1.0'' ''amd64'') (FieldQuery ''Section'' VersionRegexp ''w.*''))
        nginx = Inl ?re"
    "fst (Query example_externals (FieldQuery ''Section'' VersionRegexp ''w.*'') 0 [example_list])
       = Inl ?re"
    by blast+
  moreover from t2 have
    "Matches example_externals (FieldQuery ''$Version'' (OtherRelation 99) ''1.0'') nginx = Inl ?un"
    by blast
  ultimately show ?thesis using u1 u2 a by blast
qed

section \<open>Properties of the publish pipeline\<close>

subsection \<open>Auxiliary facts\<close>

lemma publish_architecture_error:
  assumes "publish_architecture env p list basePath arch generatedFiles w = (Inl e, w')"
  shows "(\<exists>m. e = Raw m) \<or> (\<exists>m. e = Errorf ''unable to creates Packages file: %s'' [m])
       \<or> (\<exists>m. e = Errorf ''unable to creates process packages: %s'' [m])
       \<or> (\<exists>m. e = Errorf ''unable to write Packages file: %s'' [m])
       \<or> (\<exists>m. e = Errorf ''unable to compress Packages files: %s'' [m])
       \<or> (\<exists>m. e = Errorf ''unable to collect checksums: %s'' [m])"
  using assms unfolding publish_architecture_def Let_def
  by (auto split: prod.splits option.splits sum.splits)


lemma publish_architecture_not_early:
  assumes "publish_architecture env p list basePath arch generatedFiles w = (Inl e, w')"
  shows "\<not> early_error e"
  using publish_architecture_error [OF assms]
  by (auto simp: early_error_def EmptyRepositoryError_def MissingArchitecturesError_def
      UnresolvedReferenceError_def)

lemma publish_architectures_not_early:
  "publish_architectures env p list basePath archs generatedFiles w = (Inl e, w')
     \<Longrightarrow> \<not> early_error e"
proof (induction archs arbitrary: generatedFiles w)
  case Nil
  then show ?case by simp
next
  case (Cons arch archs)
  obtain r w1 where a: "publish_architecture env p list basePath arch generatedFiles w = (r, w1)"
    by (cases "publish_architecture env p list basePath arch generatedFiles w") auto
  show ?case
  proof (cases r)
    case (Inl e1)
    with Cons.prems a have "e1 = e" by simp
    with a Inl have "publish_architecture env p list basePath arch generatedFiles w = (Inl e, w1)"
      by simp
    then show ?thesis by (rule publish_architecture_not_early)
  next
    case (Inr gf1)
    with Cons.prems a have "publish_architectures env p list basePath archs gf1 w1 = (Inl e, w')"
      by simp
    then show ?thesis by (rule Cons.IH)
  qed
qed

lemma publish_release_not_early:
  assumes "publish_release env basePath release w = (Some e, w')"
  shows "\<not> early_error e"
  using assms unfolding publish_release_def Let_def
  by (auto simp: early_error_def EmptyRepositoryError_def MissingArchitecturesError_def
      UnresolvedReferenceError_def split: prod.splits option.splits sum.splits)

lemma publish_list_early:
  assumes "publish_list env p basePath list w = (Some e, p', w')" "early_error e"
  shows "w' = w"
proof (cases "PackageList_Len list = 0")
  case True
  with assms(1) show ?thesis by (simp add: publish_list_def)
next
  case False
  define p1 where "p1 = (if Architectures p = None
      then p\<lparr>Architectures := Some (PackageList_Architectures list)\<rparr> else p)"
  show ?thesis
  proof (cases "length (slice (Architectures p1)) = 0")
    case True
    with assms(1) False show ?thesis by (simp add: publish_list_def p1_def Let_def)
  next
    case nz: False
    obtain r w1 where l: "publish_architectures env p1 list basePath (slice (Architectures p1)) [] w
        = (r, w1)"
      by (cases "publish_architectures env p1 list basePath (slice (Architectures p1)) [] w") auto
    show ?thesis
    proof (cases r)
      case (Inl e1)
      with assms(1) False nz l have "e1 = e"
        by (simp add: publish_list_def p1_def [symmetric] Let_def)
      with l Inl have "publish_architectures env p1 list basePath (slice (Architectures p1)) [] w
          = (Inl e, w1)" by simp
      from publish_architectures_not_early [OF this] assms(2) show ?thesis by simp
    next
      case (Inr gf)
      obtain r2 w2 where rel: "publish_release env basePath (Release p1 (Now env w1) gf) w1 = (r2, w2)"
        by (cases "publish_release env basePath (Release p1 (Now env w1) gf) w1") auto
      with assms(1) False nz l Inr have "r2 = Some e"
        by (simp add: publish_list_def p1_def [symmetric] Let_def)
      with rel have "publish_release env basePath (Release p1 (Now env w1) gf) w1 = (Some e, w2)"
        by simp
      from publish_release_not_early [OF this] assms(2) show ?thesis by simp
    qed
  qed
qed

lemma publish_list_repository:
  assumes "PackageList_Len list \<noteq> 0"
  shows "fst (snd (publish_list env p basePath list w))
         = p\<lparr>Architectures := Some (effective_architectures p list)\<rparr>"
proof -
  define p1 where "p1 = (if Architectures p = None
      then p\<lparr>Architectures := Some (PackageList_Architectures list)\<rparr> else p)"
  have p1: "p1 = p\<lparr>Architectures := Some (effective_architectures p list)\<rparr>"
    by (cases "Architectures p") (simp_all add: p1_def effective_architectures_def)
  have "fst (snd (publish_list env p basePath list w)) = p1"
    using assms unfolding publish_list_def p1_def [symmetric] Let_def
    by (simp split: prod.splits sum.splits)
  with p1 show ?thesis by simp
qed

lemma field_update: "field (AList.update k v st) k' = (if k' = k then v else field st k')"
  by (simp add: field_def update_conv')

lemma field_add_checksums:
  "field (add_checksums st (path, info)) ''MD5Sum''
     = field st ''MD5Sum'' @ checksum_line (MD5 info) (Size info) path"
  "field (add_checksums st (path, info)) ''SHA1''
     = field st ''SHA1'' @ checksum_line (SHA1 info) (Size info) path"
  "field (add_checksums st (path, info)) ''SHA256''
     = field st ''SHA256'' @ checksum_line (SHA256 info) (Size info) path"
  by (simp_all add: add_checksums_def Let_def field_update)

lemma field_foldl_add_checksums:
  "field (foldl add_checksums st gf) ''MD5Sum''
     = field st ''MD5Sum''
       @ concat (map (\<lambda>(path, info). checksum_line (MD5 info) (Size info) path) gf)
   \<and> field (foldl add_checksums st gf) ''SHA1''
     = field st ''SHA1''
       @ concat (map (\<lambda>(path, info). checksum_line (SHA1 info) (Size info) path) gf)
   \<and> field (foldl add_checksums st gf) ''SHA256''
     = field st ''SHA256''
       @ concat (map (\<lambda>(path, info). checksum_line (SHA256 info) (Size info) path) gf)"
proof (induction gf arbitrary: st)
  case Nil
  show ?case by simp
next
  case (Cons e gf)
  obtain path info where e: "e = (path, info)" by (cases e)
  from Cons.IH [of "add_checksums st e"] show ?case
    unfolding e by (simp add: field_add_checksums)
qed

lemma Release_blocks:
  "field (Release p date gf) ''MD5Sum'' = checksum_block MD5 gf
   \<and> field (Release p date gf) ''SHA1'' = checksum_block SHA1 gf
   \<and> field (Release p date gf) ''SHA256'' = checksum_block SHA256 gf"
  unfolding Release_def checksum_block_def
  using field_foldl_add_checksums by (simp add: field_def)

lemma publish_architecture_success:
  assumes "publish_architecture env p list basePath arch gf w = (Inr gf', w')"
  shows "\<exists>c1 c2 c3. gf' =
           AList.update (filepath_Join env [Component p, ''binary-'' @ arch, ''Packages''] @ ''.bz2'') c3
             (AList.update (filepath_Join env [Component p, ''binary-'' @ arch, ''Packages''] @ ''.gz'') c2
                (AList.update (filepath_Join env [Component p, ''binary-'' @ arch, ''Packages'']) c1 gf))"
  using assms unfolding publish_architecture_def Let_def
  by (auto split: prod.splits option.splits sum.splits)

lemma publish_architecture_keys:
  assumes "publish_architecture env p list basePath arch gf w = (Inr gf', w')"
    and "distinct (map fst gf)"
  shows "distinct (map fst gf')
       \<and> fst ` set gf' = fst ` set gf \<union> set (generated_paths env p [arch])"
proof -
  from publish_architecture_success [OF assms(1)] obtain c1 c2 c3 where
    "gf' = AList.update (filepath_Join env [Component p, ''binary-'' @ arch, ''Packages''] @ ''.bz2'') c3
             (AList.update (filepath_Join env [Component p, ''binary-'' @ arch, ''Packages''] @ ''.gz'') c2
                (AList.update (filepath_Join env [Component p, ''binary-'' @ arch, ''Packages'']) c1 gf))"
    by blast
  with assms(2) show ?thesis
    by (auto simp: distinct_update dom_update generated_paths_def)
qed

lemma generated_paths_Cons:
  "generated_paths env p (arch # archs) = generated_paths env p [arch] @ generated_paths env p archs"
  by (simp add: generated_paths_def)

lemma publish_architectures_keys:
  "publish_architectures env p list basePath archs gf w = (Inr gf', w') \<Longrightarrow> distinct (map fst gf)
     \<Longrightarrow> distinct (map fst gf')
         \<and> fst ` set gf' = fst ` set gf \<union> set (generated_paths env p archs)"
proof (induction archs arbitrary: gf w)
  case Nil
  then show ?case by (simp add: generated_paths_def)
next
  case (Cons arch archs)
  obtain r w1 where a: "publish_architecture env p list basePath arch gf w = (r, w1)"
    by (cases "publish_architecture env p list basePath arch gf w") auto
  with Cons.prems(1) obtain gf1 where r: "r = Inr gf1"
    and rest: "publish_architectures env p list basePath archs gf1 w1 = (Inr gf', w')"
    by (cases r) auto
  from publish_architecture_keys [OF a [unfolded r] Cons.prems(2)]
  have d1: "distinct (map fst gf1)"
    and k1: "fst ` set gf1 = fst ` set gf \<union> set (generated_paths env p [arch])" by simp_all
  from Cons.IH [OF rest d1] k1 show ?case
    unfolding generated_paths_Cons [of env p arch archs] by auto
qed

lemma length_generated_paths: "length (generated_paths env p archs) = 3 * length archs"
  by (induction archs) (simp_all add: generated_paths_def)

lemma Publish_success:
  assumes "Publish env p packageCollection w = (None, p', w')"
  shows "\<exists>w2 list gf w3.
           publish_architectures env p' list (filepath_Join env [Prefix p, ''dists'', Distribution p])
             (slice (Architectures p')) [] w2 = (Inr gf, w3)
         \<and> publish_release env (filepath_Join env [Prefix p, ''dists'', Distribution p])
             (Release p' (Now env w3) gf) w3 = (None, w')"
proof -
  let ?base = "filepath_Join env [Prefix p, ''dists'', Distribution p]"
  from assms obtain w2 list where
    pl: "publish_list env p ?base list w2 = (None, p', w')"
    unfolding Publish_def Let_def
    by (auto split: prod.splits option.splits sum.splits)
  define p1 where "p1 = (if Architectures p = None
      then p\<lparr>Architectures := Some (PackageList_Architectures list)\<rparr> else p)"
  from pl have ne: "PackageList_Len list \<noteq> 0" "length (slice (Architectures p1)) \<noteq> 0"
    unfolding publish_list_def p1_def [symmetric] Let_def
    by (auto split: if_splits)
  obtain r w3 where l: "publish_architectures env p1 list ?base (slice (Architectures p1)) [] w2
      = (r, w3)"
    by (cases "publish_architectures env p1 list ?base (slice (Architectures p1)) [] w2") auto
  from pl ne l obtain gf where r: "r = Inr gf"
    unfolding publish_list_def p1_def [symmetric] Let_def
    by (cases r) auto
  from pl ne l r have "p' = p1"
    and "publish_release env ?base (Release p1 (Now env w3) gf) w3 = (None, w')"
    unfolding publish_list_def p1_def [symmetric] Let_def
    by (auto split: prod.splits)
  with l r show ?thesis by blast
qed

lemmas example_defs =
  example_collaborators_def NewPublishedRepo_def empty_snapshot_def example_snapshot_def
  example_collection_def empty_memory_def pool_made_def directories_made_def
  example_load_def nginx_def docs_def PackageList_Len_def

lemma example_pool:
  "MkDir example_collaborators (filepath_Join example_collaborators [''ppa'', ''pool'']) empty_memory
     = (None, pool_made)"
  by (simp add: example_defs)

lemma example_dists:
  "MkDir example_collaborators
     (filepath_Join example_collaborators [''ppa'', ''dists'', ''squeeze'']) pool_made
     = (None, directories_made)"
  by (simp add: example_defs)

lemma example_loaded:
  "NewPackageListFromRefList example_collaborators (RefList example_snapshot) example_collection
     = Inr [nginx, docs]"
  by (simp add: example_defs)

lemma empty_loaded:
  "NewPackageListFromRefList example_collaborators (RefList empty_snapshot) example_collection
     = Inr []"
  by (simp add: example_defs)

subsection \<open>The claims\<close>

text \<open>
  C4. When the two directories are made and the snapshot materializes to an empty
  package list, \<^verbatim>\<open>Publish\<close> fails with the empty-repository error, and the state it
  leaves is the one after the two directory creations: no file is created, no Release
  file among them.
\<close>

theorem Publish_empty_repository:
  assumes "MkDir env (filepath_Join env [Prefix p, ''pool'']) w = (None, w1)"
    and "MkDir env (filepath_Join env [Prefix p, ''dists'', Distribution p]) w1 = (None, w2)"
    and "NewPackageListFromRefList env (RefList (snapshot p)) packageCollection = Inr list"
    and "PackageList_Len list = 0"
  shows "Publish env p packageCollection w = (Some EmptyRepositoryError, p, w2)"
  using assms by (simp add: Publish_def publish_list_def EmptyRepositoryError_def)

theorem Publish_empty_repository_witness:
  "Publish example_collaborators empty_repo example_collection empty_memory
     = (Some EmptyRepositoryError, empty_repo, directories_made)
   \<and> files directories_made = []"
proof -
  have 1: "MkDir example_collaborators
      (filepath_Join example_collaborators [Prefix empty_repo, ''pool'']) empty_memory
      = (None, pool_made)"
    using example_pool by (simp add: empty_repo_def NewPublishedRepo_def)
  have 2: "MkDir example_collaborators
      (filepath_Join example_collaborators [Prefix empty_repo, ''dists'', Distribution empty_repo])
      pool_made = (None, directories_made)"
    using example_dists by (simp add: empty_repo_def NewPublishedRepo_def)
  have 3: "NewPackageListFromRefList example_collaborators (RefList (snapshot empty_repo))
      example_collection = Inr []"
    using empty_loaded by (simp add: empty_repo_def NewPublishedRepo_def)
  have 4: "PackageList_Len [] = 0" by (simp add: PackageList_Len_def)
  from Publish_empty_repository [OF 1 2 3 4] show ?thesis
    by (simp add: directories_made_def)
qed

text \<open>
  C5. When \<^verbatim>\<open>Publish\<close> has loaded a package list that is not empty: the architecture
  list of the published repository becomes the explicit list, or, where none was
  supplied, the architectures present in the loaded list; and when that list is empty,
  \<^verbatim>\<open>Publish\<close> fails with the missing-architectures error in the state left by the two
  directory creations, before any work for an architecture.
\<close>

theorem Publish_infers_architectures:
  assumes "MkDir env (filepath_Join env [Prefix p, ''pool'']) w = (None, w1)"
    and "MkDir env (filepath_Join env [Prefix p, ''dists'', Distribution p]) w1 = (None, w2)"
    and "NewPackageListFromRefList env (RefList (snapshot p)) packageCollection = Inr list"
    and "PackageList_Len list \<noteq> 0"
  shows "Architectures (fst (snd (Publish env p packageCollection w)))
           = Some (effective_architectures p list)
       \<and> (Architectures p = None
            \<longrightarrow> set (effective_architectures p list) = Architecture ` set list)
       \<and> (effective_architectures p list = []
            \<longrightarrow> Publish env p packageCollection w
                = (Some MissingArchitecturesError, p\<lparr>Architectures := Some []\<rparr>, w2))"
proof -
  let ?base = "filepath_Join env [Prefix p, ''dists'', Distribution p]"
  from assms(1,2,3) have P: "Publish env p packageCollection w = publish_list env p ?base list w2"
    by (simp add: Publish_def)
  have 1: "Architectures (fst (snd (Publish env p packageCollection w)))
           = Some (effective_architectures p list)"
    unfolding P publish_list_repository [OF assms(4)] by simp
  have 2: "Architectures p = None
            \<longrightarrow> set (effective_architectures p list) = Architecture ` set list"
    by (simp add: effective_architectures_def PackageList_Architectures_def)
  have 3: "Publish env p packageCollection w
                = (Some MissingArchitecturesError, p\<lparr>Architectures := Some []\<rparr>, w2)"
    if e: "effective_architectures p list = []"
  proof (cases "Architectures p")
    case None
    with e assms(4) show ?thesis
      unfolding P publish_list_def
      by (simp add: effective_architectures_def slice_def MissingArchitecturesError_def)
  next
    case (Some archs)
    with e have "archs = []" by (simp add: effective_architectures_def)
    with Some have "p\<lparr>Architectures := Some []\<rparr> = p" by simp
    with Some \<open>archs = []\<close> assms(4) show ?thesis
      unfolding P publish_list_def
      by (simp add: slice_def MissingArchitecturesError_def)
  qed
  from 1 2 3 show ?thesis by blast
qed

theorem Publish_infers_architectures_witness:
  "Architectures example_repo = None
   \<and> Architectures
        (fst (snd (Publish example_collaborators example_repo example_collection empty_memory)))
       = Some [''amd64'', ''all'']
   \<and> set [''amd64'', ''all''] = Architecture ` set [nginx, docs]
   \<and> Architectures no_architectures_repo = Some []
   \<and> Publish example_collaborators no_architectures_repo example_collection empty_memory
       = (Some MissingArchitecturesError, no_architectures_repo, directories_made)"
proof -
  have 1: "MkDir example_collaborators
      (filepath_Join example_collaborators [Prefix example_repo, ''pool'']) empty_memory
      = (None, pool_made)"
    using example_pool by (simp add: example_repo_def NewPublishedRepo_def)
  have 2: "MkDir example_collaborators
      (filepath_Join example_collaborators [Prefix example_repo, ''dists'', Distribution example_repo])
      pool_made = (None, directories_made)"
    using example_dists by (simp add: example_repo_def NewPublishedRepo_def)
  have 3: "NewPackageListFromRefList example_collaborators (RefList (snapshot example_repo))
      example_collection = Inr [nginx, docs]"
    using example_loaded by (simp add: example_repo_def NewPublishedRepo_def)
  have 4: "PackageList_Len [nginx, docs] \<noteq> 0" by (simp add: PackageList_Len_def)
  have n: "Architectures example_repo = None" by (simp add: example_repo_def NewPublishedRepo_def)
  have e: "effective_architectures example_repo [nginx, docs] = [''amd64'', ''all'']"
    by (simp add: effective_architectures_def n PackageList_Architectures_def nginx_def docs_def)
  have d1: "MkDir example_collaborators
      (filepath_Join example_collaborators [Prefix no_architectures_repo, ''pool'']) empty_memory
      = (None, pool_made)"
    using example_pool by (simp add: no_architectures_repo_def NewPublishedRepo_def)
  have d2: "MkDir example_collaborators
      (filepath_Join example_collaborators
         [Prefix no_architectures_repo, ''dists'', Distribution no_architectures_repo])
      pool_made = (None, directories_made)"
    using example_dists by (simp add: no_architectures_repo_def NewPublishedRepo_def)
  have d3: "NewPackageListFromRefList example_collaborators
      (RefList (snapshot no_architectures_repo)) example_collection = Inr [nginx, docs]"
    using example_loaded by (simp add: no_architectures_repo_def NewPublishedRepo_def)
  have n2: "Architectures no_architectures_repo = Some []"
    by (simp add: no_architectures_repo_def NewPublishedRepo_def)
  have e2: "effective_architectures no_architectures_repo [nginx, docs] = []"
    by (simp add: effective_architectures_def n2)
  have u: "no_architectures_repo\<lparr>Architectures := Some []\<rparr> = no_architectures_repo"
    by (simp add: no_architectures_repo_def NewPublishedRepo_def)
  from Publish_infers_architectures [OF 1 2 3 4] n e
  have a: "Architectures
        (fst (snd (Publish example_collaborators example_repo example_collection empty_memory)))
       = Some [''amd64'', ''all'']"
    and b: "set [''amd64'', ''all''] = Architecture ` set [nginx, docs]"
    by simp_all
  from Publish_infers_architectures [OF d1 d2 d3 4] e2 u
  have c: "Publish example_collaborators no_architectures_repo example_collection empty_memory
       = (Some MissingArchitecturesError, no_architectures_repo, directories_made)"
    by simp
  from n a b n2 c show ?thesis by blast
qed

text \<open>
  C7 (as amended). After a successful \<^verbatim>\<open>Publish\<close>, the Release stanza written to the
  Release file has the three checksum blocks MD5Sum, SHA1 and SHA256 with one entry
  for every generated relative path each: 3 times the number of architectures when the
  paths of the plain, .gz and .bz2 Packages files of the architectures are pairwise
  distinct, which asks that no architecture is listed twice.
\<close>

theorem Release_checksum_blocks:
  assumes "Publish env p packageCollection w = (None, p', w')"
  shows "\<exists>generatedFiles w3.
      publish_release env (filepath_Join env [Prefix p, ''dists'', Distribution p])
        (Release p' (Now env w3) generatedFiles) w3 = (None, w')
    \<and> field (Release p' (Now env w3) generatedFiles) ''MD5Sum''
        = checksum_block MD5 generatedFiles
    \<and> field (Release p' (Now env w3) generatedFiles) ''SHA1''
        = checksum_block SHA1 generatedFiles
    \<and> field (Release p' (Now env w3) generatedFiles) ''SHA256''
        = checksum_block SHA256 generatedFiles
    \<and> length generatedFiles = card (set (generated_paths env p' (slice (Architectures p'))))
    \<and> (distinct (generated_paths env p' (slice (Architectures p')))
         \<longrightarrow> length generatedFiles = 3 * length (slice (Architectures p')))"
proof -
  let ?base = "filepath_Join env [Prefix p, ''dists'', Distribution p]"
  let ?paths = "generated_paths env p' (slice (Architectures p'))"
  from Publish_success [OF assms] obtain w2 list gf w3 where
    loop: "publish_architectures env p' list ?base (slice (Architectures p')) [] w2 = (Inr gf, w3)"
    and rel: "publish_release env ?base (Release p' (Now env w3) gf) w3 = (None, w')"
    by blast
  from publish_architectures_keys [OF loop] have d: "distinct (map fst gf)"
    and k: "fst ` set gf = set ?paths" by simp_all
  from d have "length gf = card (set (map fst gf))"
    by (metis distinct_card length_map)
  with k have len: "length gf = card (set ?paths)" by simp
  have "length gf = 3 * length (slice (Architectures p'))" if "distinct ?paths"
    using len distinct_card [OF that] length_generated_paths [of env p'] by simp
  with rel len Release_blocks [of p' "Now env w3" gf] show ?thesis by blast
qed

theorem Release_checksum_blocks_witness:
  "\<exists>generatedFiles w3.
     publish_release example_collaborators ''ppa/dists/squeeze''
       (Release amd64_repo (Now example_collaborators w3) generatedFiles) w3
       = (None, snd (snd (Publish example_collaborators amd64_repo example_collection empty_memory)))
     \<and> field (Release amd64_repo (Now example_collaborators w3) generatedFiles) ''MD5Sum''
         = checksum_block MD5 generatedFiles
     \<and> length generatedFiles = 3 * length [''amd64'']"
proof -
  let ?P = "Publish example_collaborators amd64_repo example_collection empty_memory"
  have "(fst ?P, fst (snd ?P)) = (None, amd64_repo)" by code_simp
  then have P: "?P = (None, amd64_repo, snd (snd ?P))" by (metis prod.collapse prod.inject)
  have b: "filepath_Join example_collaborators [Prefix amd64_repo, ''dists'', Distribution amd64_repo]
      = ''ppa/dists/squeeze''"
    by (simp add: amd64_repo_def NewPublishedRepo_def example_collaborators_def)
  have a: "slice (Architectures amd64_repo) = [''amd64'']"
    by (simp add: amd64_repo_def NewPublishedRepo_def slice_def)
  have d: "distinct (generated_paths example_collaborators amd64_repo (slice (Architectures amd64_repo)))"
    unfolding a by (simp add: generated_paths_def)
  from Release_checksum_blocks [OF P] d show ?thesis unfolding a b by blast
qed

text \<open>
  C7 as stated fails: with the explicit architecture list \<^verbatim>\<open>i386, i386\<close> the loop runs
  twice over the same three paths, \<^verbatim>\<open>Publish\<close> succeeds, and every checksum block of
  the Release file has 3 entries for 2 architectures.
\<close>

theorem Release_checksum_blocks_counterexample:
  "(case Publish example_collaborators duplicate_repo example_collection empty_memory of
      (err, p', w') \<Rightarrow> (err, Architectures p', field (files w') ''ppa/dists/squeeze/Release''))
   = (None, Some [''i386'', ''i386''],
      ''Origin: ppa squeeze\<newline>Label: ppa squeeze\<newline>Codename: squeeze\<newline>Date: Sun, 1 Nov 2026 12:00:00 UTC\<newline>Components: main\<newline>Architectures: i386 i386\<newline>Description: Generated by aptly\<newline>\<newline>MD5Sum: \<newline> md5       46 main/binary-i386/Packages\<newline> md5        4 main/binary-i386/Packages.gz\<newline> md5        5 main/binary-i386/Packages.bz2\<newline>\<newline>SHA1: \<newline> sha1       46 main/binary-i386/Packages\<newline> sha1        4 main/binary-i386/Packages.gz\<newline> sha1        5 main/binary-i386/Packages.bz2\<newline>\<newline>SHA256: \<newline> sha256       46 main/binary-i386/Packages\<newline> sha256        4 main/binary-i386/Packages.gz\<newline> sha256        5 main/binary-i386/Packages.bz2\<newline>\<newline>'')"
  by code_simp

text \<open>
  C10. When \<^verbatim>\<open>Publish\<close> fails with the empty-repository, the unresolved-reference or
  the missing-architectures error, both \<^verbatim>\<open>MkDir\<close> calls (pool and
  dists/distribution) have succeeded before, and the state that \<^verbatim>\<open>Publish\<close> leaves is
  the one after them, not the one it started in.
\<close>

theorem Publish_early_errors_after_directories:
  assumes "Publish env p packageCollection w = (Some e, p', w')"
    and "e = EmptyRepositoryError \<or> e = MissingArchitecturesError
         \<or> e = UnresolvedReferenceError m"
  shows "\<exists>w1. MkDir env (filepath_Join env [Prefix p, ''pool'']) w = (None, w1)
            \<and> MkDir env (filepath_Join env [Prefix p, ''dists'', Distribution p]) w1 = (None, w')"
proof -
  from assms(2) have early: "early_error e" unfolding early_error_def by blast
  then have not_raw: "\<And>err. e \<noteq> Raw err"
    by (auto simp: early_error_def EmptyRepositoryError_def MissingArchitecturesError_def
        UnresolvedReferenceError_def)
  obtain r1 w1 where m1: "MkDir env (filepath_Join env [Prefix p, ''pool'']) w = (r1, w1)"
    by (cases "MkDir env (filepath_Join env [Prefix p, ''pool'']) w") auto
  from assms(1) m1 not_raw have r1: "r1 = None"
    by (cases r1) (auto simp: Publish_def)
  obtain r2 w2 where
    m2: "MkDir env (filepath_Join env [Prefix p, ''dists'', Distribution p]) w1 = (r2, w2)"
    by (cases "MkDir env (filepath_Join env [Prefix p, ''dists'', Distribution p]) w1") auto
  from assms(1) m1 r1 m2 not_raw have r2: "r2 = None"
    by (cases r2) (auto simp: Publish_def)
  have "w' = w2"
  proof (cases "NewPackageListFromRefList env (RefList (snapshot p)) packageCollection")
    case (Inl err)
    with assms(1) m1 r1 m2 r2 show ?thesis by (simp add: Publish_def)
  next
    case (Inr list)
    with assms(1) m1 r1 m2 r2
    have "publish_list env p (filepath_Join env [Prefix p, ''dists'', Distribution p]) list w2
          = (Some e, p', w')"
      by (simp add: Publish_def)
    from publish_list_early [OF this early] show ?thesis .
  qed
  with m1 r1 m2 r2 show ?thesis by simp
qed

theorem Publish_early_errors_after_directories_witness:
  "Publish example_collaborators no_architectures_repo example_collection empty_memory
     = (Some MissingArchitecturesError, no_architectures_repo, directories_made)
   \<and> (\<exists>w1. MkDir example_collaborators
              (filepath_Join example_collaborators [Prefix no_architectures_repo, ''pool''])
              empty_memory = (None, w1)
          \<and> MkDir example_collaborators
              (filepath_Join example_collaborators
                 [Prefix no_architectures_repo, ''dists'', Distribution no_architectures_repo])
              w1 = (None, directories_made))
   \<and> dirs directories_made = [''ppa/dists/squeeze'', ''ppa/pool'']"
proof -
  have P: "Publish example_collaborators no_architectures_repo example_collection empty_memory
     = (Some MissingArchitecturesError, no_architectures_repo, directories_made)"
    by (simp add: Publish_def publish_list_def no_architectures_repo_def example_defs slice_def
        MissingArchitecturesError_def)
  have "MissingArchitecturesError = EmptyRepositoryError
      \<or> MissingArchitecturesError = MissingArchitecturesError
      \<or> MissingArchitecturesError = UnresolvedReferenceError []" by simp
  from Publish_early_errors_after_directories [OF P this] P show ?thesis
    by (simp add: directories_made_def)
qed

end
